theory Spec2Isabelle
  imports Complex_Main
begin

section \<open>Numbers and shared data (types.ts)\<close>

text \<open>
  Arithmetic on JavaScript numbers is modelled as exact arithmetic on the reals; \<open>NaN\<close>
  and the infinities are not values of the model. A store into a \<open>Float32Array\<close> rounds
  the number to single precision, as \<open>Math.fround\<close> does: to the nearest number with 24
  significant bits, ties to the even one, in units of \<open>2 ^ -149\<close> below \<open>2 ^ -126\<close>.
  (Magnitudes of \<open>2 ^ 128\<close> and more, which the source turns into an infinity, are
  outside the model.)
\<close>

definition roundEven :: "real \<Rightarrow> int" where
  "roundEven q =
     (let f = \<lfloor>q\<rfloor>; r = q - of_int f
      in if r < 1 / 2 then f else if 1 / 2 < r then f + 1 else if even f then f else f + 1)"

definition expo32 :: "real \<Rightarrow> int" where
  "expo32 x = max \<lfloor>log 2 \<bar>x\<bar>\<rfloor> (- 126)"

definition ulp32 :: "real \<Rightarrow> real" where
  "ulp32 x = 2 powr (of_int (expo32 x) - 23)"

definition fround :: "real \<Rightarrow> real" where
  "fround x = sgn x * (of_int (roundEven (\<bar>x\<bar> / ulp32 x)) * ulp32 x)"

record HandData =
  expansion :: real
  tension :: real
  isPresent :: bool
  centerX :: real
  centerY :: real
  rotation :: real
  twist :: real
  velocity :: real
  grabbing :: bool

section \<open>Gesture feature extractor (components/HandTracker.tsx)\<close>

text \<open>
  The version of the component that smooths its output (\<open>smoothedRef\<close>, \<open>prevFrameRef\<close>)
  and emits rotation, twist, velocity and grabbing.
\<close>

text \<open>\<open>const lerp = (current, target, speed) => current + (target - current) * speed\<close>\<close>

definition lerp :: "real \<Rightarrow> real \<Rightarrow> real \<Rightarrow> real" where
  "lerp current target speed = current + (target - current) * speed"

text \<open>One landmark point; only its \<open>x\<close> and \<open>y\<close> are read by the extractor.\<close>

datatype Landmark = Landmark (lm_x: real) (lm_y: real)

text \<open>\<open>smoothedRef.current\<close>: the previous smoothed value of every signal field.\<close>

record Smoothed =
  s_expansion :: real
  s_tension :: real
  s_centerX :: real
  s_centerY :: real
  s_rotation :: real
  s_twist :: real
  s_velocity :: real

text \<open>\<open>prevFrameRef.current\<close>: data of the previous frame that had hands.\<close>

record PrevFrame =
  p_centerX :: real
  p_centerY :: real
  p_timestamp :: real
  p_hand1Y :: real
  p_hand2Y :: real

record Tracker =
  smoothedRef :: Smoothed
  prevFrameRef :: PrevFrame

definition initTracker :: Tracker where
  "initTracker =
     \<lparr> smoothedRef = \<lparr> s_expansion = 0.5, s_tension = 0, s_centerX = 0, s_centerY = 0,
                       s_rotation = 0, s_twist = 0, s_velocity = 0 \<rparr>,
       prevFrameRef = \<lparr> p_centerX = 0, p_centerY = 0, p_timestamp = 0,
                        p_hand1Y = 0, p_hand2Y = 0 \<rparr> \<rparr>"

definition smoothingSpeed :: real where
  "smoothingSpeed = 0.15"

text \<open>The signal built from the smoothed values, as both \<open>onHandUpdate\<close> calls do.\<close>

definition emit :: "Smoothed \<Rightarrow> bool \<Rightarrow> bool \<Rightarrow> HandData" where
  "emit s present grab =
     \<lparr> expansion = s_expansion s, tension = s_tension s, isPresent = present,
       centerX = s_centerX s, centerY = s_centerY s, rotation = s_rotation s,
       twist = s_twist s, velocity = s_velocity s, grabbing = grab \<rparr>"

text \<open>
  The branch of \<open>processResults\<close> taken when \<open>results.landmarks\<close> is missing or empty:
  the smoothed values decay, the centre is held, and the signal is emitted with
  \<open>isPresent: false\<close> and \<open>grabbing: false\<close>.
\<close>

definition decayAbsent :: "Smoothed \<Rightarrow> Smoothed" where
  "decayAbsent s =
     s\<lparr> s_expansion := lerp (s_expansion s) 0.5 0.05,
        s_tension := lerp (s_tension s) 0 0.05,
        s_rotation := lerp (s_rotation s) 0 0.05,
        s_twist := lerp (s_twist s) 0 0.05,
        s_velocity := lerp (s_velocity s) 0 0.1 \<rparr>"

definition processAbsent :: "Tracker \<Rightarrow> Tracker \<times> HandData option" where
  "processAbsent tr =
     (let smoothed = decayAbsent (smoothedRef tr)
      in (tr\<lparr> smoothedRef := smoothed \<rparr>, Some (emit smoothed False False)))"

text \<open>Expansion block: the wrists are \<open>results.landmarks[0][0]\<close> and \<open>results.landmarks[1][0]\<close>.\<close>

definition wristDist :: "Landmark \<Rightarrow> Landmark \<Rightarrow> real" where
  "wristDist hand1 hand2 =
     sqrt ((lm_x hand1 - lm_x hand2) ^ 2 + (lm_y hand1 - lm_y hand2) ^ 2)"

definition rawExpansionOf :: "Landmark list list \<Rightarrow> real" where
  "rawExpansionOf hands =
     (if length hands = 2
      then (let hand1 = hands ! 0 ! 0; hand2 = hands ! 1 ! 0;
                dist = wristDist hand1 hand2
            in max 0 (min 1 ((dist - 0.1) * 1.5)))
      else 0.5)"

text \<open>Rotation block; \<open>Math.sign\<close> is \<open>sgn\<close>.\<close>

definition rawRotationOf :: "Landmark list list \<Rightarrow> PrevFrame \<Rightarrow> real" where
  "rawRotationOf hands prevFrame =
     (if length hands = 2
      then (let hand1 = hands ! 0 ! 0; hand2 = hands ! 1 ! 0;
                hand1YVel = lm_y hand1 - p_hand1Y prevFrame;
                hand2YVel = lm_y hand2 - p_hand2Y prevFrame
            in if sgn hand1YVel \<noteq> sgn hand2YVel
               then max (- 1) (min 1 ((hand2YVel - hand1YVel) * 10))
               else 0)
      else 0)"

text \<open>Twist block (the unused \<open>currentAngle\<close> is left out).\<close>

definition rawTwistOf :: "Landmark list list \<Rightarrow> PrevFrame \<Rightarrow> real" where
  "rawTwistOf hands prevFrame =
     (if length hands = 2
      then (let hand1 = hands ! 0 ! 0; hand2 = hands ! 1 ! 0;
                hand1YVel = lm_y hand1 - p_hand1Y prevFrame;
                hand2YVel = lm_y hand2 - p_hand2Y prevFrame;
                hand1XVel = lm_x hand1 - p_centerX prevFrame;
                twistIndicator = \<bar>hand1YVel - hand2YVel\<bar> + \<bar>hand1XVel\<bar>
            in min 1 (twistIndicator * 5))
      else 0)"

text \<open>The two-hand block ends by storing both wrist heights.\<close>

definition storeHandY :: "Landmark list list \<Rightarrow> PrevFrame \<Rightarrow> PrevFrame" where
  "storeHandY hands prevFrame =
     (if length hands = 2
      then prevFrame\<lparr> p_hand1Y := lm_y (hands ! 0 ! 0), p_hand2Y := lm_y (hands ! 1 ! 0) \<rparr>
      else prevFrame)"

text \<open>Tension block: per hand, the mean distance of the five fingertips to the wrist.\<close>

definition tips :: "nat list" where
  "tips = [4, 8, 12, 16, 20]"

definition handTension :: "Landmark list \<Rightarrow> real" where
  "handTension landmarks =
     (let wrist = landmarks ! 0;
          avgDist = (\<Sum>idx\<leftarrow>tips. sqrt ((lm_x (landmarks ! idx) - lm_x wrist) ^ 2 +
                                       (lm_y (landmarks ! idx) - lm_y wrist) ^ 2))
                    / real (length tips)
      in 1 - max 0 (min 1 ((avgDist - 0.12) * 5)))"

definition rawTensionOf :: "Landmark list list \<Rightarrow> real" where
  "rawTensionOf hands = (\<Sum>h\<leftarrow>hands. handTension h) / real (length hands)"

definition grabbingOf :: "Landmark list list \<Rightarrow> bool" where
  "grabbingOf hands =
     (let totalGrabbing = length (filter (\<lambda>h. handTension h > 0.6) hands)
      in totalGrabbing = length hands \<and> length hands = 2)"

text \<open>Centre block, before mirroring: the mean of the wrists.\<close>

definition meanWristX :: "Landmark list list \<Rightarrow> real" where
  "meanWristX hands = (\<Sum>h\<leftarrow>hands. lm_x (h ! 0)) / real (length hands)"

definition meanWristY :: "Landmark list list \<Rightarrow> real" where
  "meanWristY hands = (\<Sum>h\<leftarrow>hands. lm_y (h ! 0)) / real (length hands)"

text \<open>
  Velocity: \<open>dx\<close> and \<open>dy\<close> subtract the stored \<open>prevFrame.centerX/centerY\<close> (which the
  previous frame stored after mirroring) from the current mean before mirroring.
\<close>

definition velocityStep :: "Landmark list list \<Rightarrow> real \<Rightarrow> PrevFrame \<Rightarrow> real \<Rightarrow> real" where
  "velocityStep hands timestamp prevFrame vel =
     (let dt = (timestamp - p_timestamp prevFrame) / 1000
      in if dt > 0 \<and> dt < 0.5
         then (let dx = meanWristX hands - p_centerX prevFrame;
                   dy = meanWristY hands - p_centerY prevFrame;
                   rawVelocity = sqrt (dx * dx + dy * dy) / dt
               in lerp vel (min 1 (rawVelocity * 2)) 0.3)
         else vel)"

definition rawCenterXOf :: "Landmark list list \<Rightarrow> real" where
  "rawCenterXOf hands = (1 - meanWristX hands) * 2 - 1"

definition rawCenterYOf :: "Landmark list list \<Rightarrow> real" where
  "rawCenterYOf hands = - ((1 - meanWristY hands) * 2 - 1)"

text \<open>The branch of \<open>processResults\<close> for a non-empty list of complete hands.\<close>

definition processPresent :: "Landmark list list \<Rightarrow> real \<Rightarrow> Tracker \<Rightarrow> Tracker \<times> HandData option" where
  "processPresent hands timestamp tr =
     (let smoothed = smoothedRef tr;
          prevFrame = prevFrameRef tr;
          rawExpansion = rawExpansionOf hands;
          rawRotation = rawRotationOf hands prevFrame;
          rawTwist = rawTwistOf hands prevFrame;
          prevFrame1 = storeHandY hands prevFrame;
          rawTension = rawTensionOf hands;
          grab = grabbingOf hands;
          vel = velocityStep hands timestamp prevFrame1 (s_velocity smoothed);
          rawCenterX = rawCenterXOf hands;
          rawCenterY = rawCenterYOf hands;
          prevFrame2 = prevFrame1\<lparr> p_centerX := rawCenterX, p_centerY := rawCenterY,
                                   p_timestamp := timestamp \<rparr>;
          smoothed' =
            \<lparr> s_expansion = lerp (s_expansion smoothed) rawExpansion smoothingSpeed,
              s_tension = lerp (s_tension smoothed) rawTension smoothingSpeed,
              s_centerX = lerp (s_centerX smoothed) rawCenterX smoothingSpeed,
              s_centerY = lerp (s_centerY smoothed) rawCenterY smoothingSpeed,
              s_rotation = lerp (s_rotation smoothed) rawRotation (smoothingSpeed * 0.5),
              s_twist = lerp (s_twist smoothed) rawTwist (smoothingSpeed * 0.3),
              s_velocity = vel \<rparr>
      in (\<lparr> smoothedRef = smoothed', prevFrameRef = prevFrame2 \<rparr>,
          Some (emit smoothed' True grab)))"

text \<open>
  A hand with fewer than 21 landmarks makes a read \<open>landmarks[idx].x\<close> throw a TypeError:
  no signal is emitted. The only mutation that can precede the throw is the store of
  both wrist heights, when there are two hands and each has a wrist.
\<close>

definition processThrow :: "Landmark list list \<Rightarrow> Tracker \<Rightarrow> Tracker \<times> HandData option" where
  "processThrow hands tr =
     (if length hands = 2 \<and> hands ! 0 \<noteq> [] \<and> hands ! 1 \<noteq> []
      then (tr\<lparr> prevFrameRef := storeHandY hands (prevFrameRef tr) \<rparr>, None)
      else (tr, None))"

text \<open>
  \<open>processResults(results, timestamp)\<close>; the first argument is \<open>results.landmarks\<close>,
  \<open>None\<close> when it is missing. The result is the tracker's state after the call and the
  signal passed to \<open>onHandUpdate\<close>, if any.
\<close>

definition processResults :: "Landmark list list option \<Rightarrow> real \<Rightarrow> Tracker \<Rightarrow> Tracker \<times> HandData option" where
  "processResults landmarks timestamp tr =
     (case landmarks of
        None \<Rightarrow> processAbsent tr
      | Some hands \<Rightarrow>
          if length hands = 0 then processAbsent tr
          else if list_all (\<lambda>h. 21 \<le> length h) hands then processPresent hands timestamp tr
          else processThrow hands tr)"

section \<open>Particle state engine (App.tsx)\<close>

text \<open>
  The version of the application that keeps \<open>stateRef\<close> and has the explosion: the signal
  callback \<open>handleHandUpdate\<close>, the shape-change effect and the render tick \<open>animate\<close>.
\<close>

text \<open>The entries of \<open>CONFIG\<close> that the engine reads.\<close>

definition lerpSpeed :: real where
  "lerpSpeed = 0.035"

definition baseParticleSize :: real where
  "baseParticleSize = 0.15"

definition idleRotationSpeed :: real where
  "idleRotationSpeed = 0.003"

definition gestureResponseSpeed :: real where
  "gestureResponseSpeed = 0.08"

definition explosionForce :: real where
  "explosionForce = 2.0"

definition explosionDecay :: real where
  "explosionDecay = 0.92"

text \<open>
  \<open>stateRef.current\<close> together with the objects the two callbacks mutate: the position
  array of the geometry, the rotation of \<open>points\<close>, the size of the material, and whether
  \<open>pointsRef.current\<close> is set. \<open>points.scale\<close> always equals \<open>currentScale\<close>.
  The three buffers are \<open>Float32Array\<close>s of \<open>PARTICLE_COUNT * 3\<close> cells; the particle
  count is the parameter \<open>n\<close> of the functions below. A read past the end of a buffer
  gives \<open>undefined\<close> in the source and is not modelled: the statements about the loops
  carry the lengths \<open>n * 3\<close> as hypotheses, which the allocations of the source establish.
\<close>

record EngineState =
  hand :: HandData
  explosionActive :: bool
  explosionVelocities :: "real list"
  currentScale :: real
  rotationVelocity :: real
  targets :: "real list"
  positions :: "real list"
  rotationX :: real
  rotationY :: real
  materialSize :: real
  pointsRef :: bool

definition initHand :: HandData where
  "initHand = \<lparr> expansion = 0.5, tension = 0, isPresent = False, centerX = 0, centerY = 0,
                rotation = 0, twist = 0, velocity = 0, grabbing = False \<rparr>"

text \<open>
  The state once the scene is mounted; \<open>pos0\<close> and \<open>tgt0\<close> are the two clouds that
  \<open>generateParticles(ShapeType.GALAXY)\<close> returned for the geometry and for \<open>targets\<close>.
\<close>

definition initEngine :: "nat \<Rightarrow> real list \<Rightarrow> real list \<Rightarrow> EngineState" where
  "initEngine n pos0 tgt0 =
     \<lparr> hand = initHand, explosionActive = False,
       explosionVelocities = replicate (n * 3) 0,
       currentScale = 1.2, rotationVelocity = 0, targets = tgt0, positions = pos0,
       rotationX = 0, rotationY = 0, materialSize = baseParticleSize, pointsRef = True \<rparr>"

subsection \<open>Clap detection (\<open>handleHandUpdate\<close>)\<close>

text \<open>
  One iteration of the loop that sets the velocities of particle \<open>i\<close>; \<open>rnd i\<close> is the
  value \<open>Math.random()\<close> returns in that iteration. \<open>Math.sqrt(...) || 1\<close> replaces a
  distance of zero by one.
\<close>

definition explodeParticle :: "(nat \<Rightarrow> real) \<Rightarrow> real list \<Rightarrow> nat \<Rightarrow> real list \<Rightarrow> real list" where
  "explodeParticle rnd pos i velocities =
     (let i3 = i * 3;
          x = pos ! i3; y = pos ! (i3 + 1); z = pos ! (i3 + 2);
          d = sqrt (x * x + y * y + z * z);
          dist = (if d = 0 then 1 else d);
          force = explosionForce * (0.7 + rnd i * 0.6)
      in velocities[i3 := (x / dist) * force,
                    i3 + 1 := (y / dist) * force,
                    i3 + 2 := (z / dist) * force])"

text \<open>
  The callback stores the signal, then tests the clap condition. (It also mirrors
  \<open>isPresent\<close> into a React state for the overlay, which the engine never reads.)
\<close>

definition clapCondition :: "HandData \<Rightarrow> EngineState \<Rightarrow> bool" where
  "clapCondition data state \<longleftrightarrow>
     velocity data > 0.4 \<and> expansion data < 0.25 \<and> \<not> explosionActive state \<and> pointsRef state"

definition handleHandUpdate :: "nat \<Rightarrow> (nat \<Rightarrow> real) \<Rightarrow> HandData \<Rightarrow> EngineState \<Rightarrow> EngineState" where
  "handleHandUpdate n rnd data state =
     (let state1 = state\<lparr> hand := data \<rparr>
      in if clapCondition data state1
         then state1\<lparr> explosionVelocities :=
                         fold (explodeParticle rnd (positions state1)) [0..<n]
                              (explosionVelocities state1),
                      explosionActive := True \<rparr>
         else state1)"

subsection \<open>Shape change\<close>

text \<open>
  \<open>stateRef.current.targets = generateParticles(activeShape)\<close>: the generator is random
  and outside the engine, so its result \<open>cloud\<close> is an argument.
\<close>

definition changeShape :: "real list \<Rightarrow> EngineState \<Rightarrow> EngineState" where
  "changeShape cloud state = state\<lparr> targets := cloud \<rparr>"

subsection \<open>Render tick (\<open>animate\<close>)\<close>

text \<open>The target coordinate after the inward pull.\<close>

definition pullTarget :: "bool \<Rightarrow> real \<Rightarrow> real \<Rightarrow> real" where
  "pullTarget grab tens t =
     (if grab \<or> tens > 0.5
      then (let pull = (if grab then 0.6 else (tens - 0.5) * 0.8) in t * (1 - pull))
      else t)"

text \<open>
  One iteration of the particle loop on \<open>(positions, velocities, maxVel)\<close>. \<open>rnd j\<close> is
  the value of the \<open>Math.random()\<close> call made for coordinate \<open>j\<close>. Here the stores into
  the two buffers are taken as exact; \<open>updateParticleStored\<close> below is the same iteration
  with the conversion of each store made explicit.
\<close>

definition updateParticle ::
  "bool \<Rightarrow> bool \<Rightarrow> real \<Rightarrow> (nat \<Rightarrow> real) \<Rightarrow> real list \<Rightarrow> nat \<Rightarrow>
   real list \<times> real list \<times> real \<Rightarrow> real list \<times> real list \<times> real" where
  "updateParticle active grab tens rnd tgts i = (\<lambda>(pos, vels, maxVel).
     let i3 = i * 3;
         jitter = tens * 0.1;
         tx = pullTarget grab tens (tgts ! i3);
         ty = pullTarget grab tens (tgts ! (i3 + 1));
         tz = pullTarget grab tens (tgts ! (i3 + 2))
     in if active
        then (let px = pos ! i3 + vels ! i3;
                  py = pos ! (i3 + 1) + vels ! (i3 + 1);
                  pz = pos ! (i3 + 2) + vels ! (i3 + 2);
                  vx = vels ! i3 * explosionDecay;
                  vy = vels ! (i3 + 1) * explosionDecay;
                  vz = vels ! (i3 + 2) * explosionDecay;
                  vel = \<bar>vx\<bar> + \<bar>vy\<bar> + \<bar>vz\<bar>
              in (pos[i3 := px + (tx - px) * lerpSpeed * 0.4,
                      i3 + 1 := py + (ty - py) * lerpSpeed * 0.4,
                      i3 + 2 := pz + (tz - pz) * lerpSpeed * 0.4],
                  vels[i3 := vx, i3 + 1 := vy, i3 + 2 := vz],
                  if vel > maxVel then vel else maxVel))
        else (pos[i3 := pos ! i3 + ((tx - pos ! i3) * lerpSpeed + (rnd i3 - 0.5) * jitter),
                  i3 + 1 := pos ! (i3 + 1) +
                            ((ty - pos ! (i3 + 1)) * lerpSpeed + (rnd (i3 + 1) - 0.5) * jitter),
                  i3 + 2 := pos ! (i3 + 2) +
                            ((tz - pos ! (i3 + 2)) * lerpSpeed + (rnd (i3 + 2) - 0.5) * jitter)],
              vels, maxVel))"

definition particleLoop ::
  "nat \<Rightarrow> bool \<Rightarrow> bool \<Rightarrow> real \<Rightarrow> (nat \<Rightarrow> real) \<Rightarrow> real list \<Rightarrow>
   real list \<times> real list \<times> real \<Rightarrow> real list \<times> real list \<times> real" where
  "particleLoop n active grab tens rnd tgts = fold (updateParticle active grab tens rnd tgts) [0..<n]"

definition animate :: "nat \<Rightarrow> (nat \<Rightarrow> real) \<Rightarrow> EngineState \<Rightarrow> EngineState" where
  "animate n rnd state =
     (let h = hand state;
          targetScale = (if isPresent h then 0.5 + expansion h * 2.0 else 1.2);
          scale' = currentScale state + (targetScale - currentScale state) * gestureResponseSpeed;
          rotVel' = (if isPresent h then (rotationVelocity state + rotation h * 0.015) * 0.92
                     else rotationVelocity state * 0.92);
          rotX' = (if isPresent h
                   then rotationX state + (- centerY h * 0.6 - rotationX state) * gestureResponseSpeed
                   else rotationX state * 0.995);
          rotY' = (if isPresent h
                   then rotationY state + (centerX h * 0.6 - rotationY state) * gestureResponseSpeed
                        + rotVel'
                   else rotationY state + idleRotationSpeed);
          tens = (if isPresent h then tension h else 0);
          (pos', vels', maxVel) =
             particleLoop n (explosionActive state) (grabbing h) tens rnd (targets state)
               (positions state, explosionVelocities state, 0);
          active' = (if explosionActive state \<and> maxVel < 0.008 then False
                     else explosionActive state);
          twistPulse = (if isPresent h then 1 + twist h * 0.25 else 1)
      in state\<lparr> explosionActive := active', explosionVelocities := vels',
                currentScale := scale', rotationVelocity := rotVel',
                positions := pos', rotationX := rotX', rotationY := rotY',
                materialSize := baseParticleSize * twistPulse \<rparr>)"

subsection \<open>Render tick with the stores of the buffers\<close>

text \<open>
  The same iteration, loop and tick, with \<open>store\<close> applied wherever the source assigns to
  a cell of \<open>positions\<close> or \<open>velocities\<close>: the first position update of the explosion
  branch is stored before it is read again, and \<open>vel\<close> is read back from the stored
  velocities. With \<open>fround\<close> for \<open>store\<close> this is the tick of the source; with the
  identity it is \<open>animate\<close>.
\<close>

definition updateParticleStored ::
  "(real \<Rightarrow> real) \<Rightarrow> bool \<Rightarrow> bool \<Rightarrow> real \<Rightarrow> (nat \<Rightarrow> real) \<Rightarrow> real list \<Rightarrow> nat \<Rightarrow>
   real list \<times> real list \<times> real \<Rightarrow> real list \<times> real list \<times> real" where
  "updateParticleStored store active grab tens rnd tgts i = (\<lambda>(pos, vels, maxVel).
     let i3 = i * 3;
         jitter = tens * 0.1;
         tx = pullTarget grab tens (tgts ! i3);
         ty = pullTarget grab tens (tgts ! (i3 + 1));
         tz = pullTarget grab tens (tgts ! (i3 + 2))
     in if active
        then (let px = store (pos ! i3 + vels ! i3);
                  py = store (pos ! (i3 + 1) + vels ! (i3 + 1));
                  pz = store (pos ! (i3 + 2) + vels ! (i3 + 2));
                  vx = store (vels ! i3 * explosionDecay);
                  vy = store (vels ! (i3 + 1) * explosionDecay);
                  vz = store (vels ! (i3 + 2) * explosionDecay);
                  vel = \<bar>vx\<bar> + \<bar>vy\<bar> + \<bar>vz\<bar>
              in (pos[i3 := store (px + (tx - px) * lerpSpeed * 0.4),
                      i3 + 1 := store (py + (ty - py) * lerpSpeed * 0.4),
                      i3 + 2 := store (pz + (tz - pz) * lerpSpeed * 0.4)],
                  vels[i3 := vx, i3 + 1 := vy, i3 + 2 := vz],
                  if vel > maxVel then vel else maxVel))
        else (pos[i3 := store (pos ! i3 + ((tx - pos ! i3) * lerpSpeed + (rnd i3 - 0.5) * jitter)),
                  i3 + 1 := store (pos ! (i3 + 1) +
                            ((ty - pos ! (i3 + 1)) * lerpSpeed + (rnd (i3 + 1) - 0.5) * jitter)),
                  i3 + 2 := store (pos ! (i3 + 2) +
                            ((tz - pos ! (i3 + 2)) * lerpSpeed + (rnd (i3 + 2) - 0.5) * jitter))],
              vels, maxVel))"

definition particleLoopStored ::
  "(real \<Rightarrow> real) \<Rightarrow> nat \<Rightarrow> bool \<Rightarrow> bool \<Rightarrow> real \<Rightarrow> (nat \<Rightarrow> real) \<Rightarrow> real list \<Rightarrow>
   real list \<times> real list \<times> real \<Rightarrow> real list \<times> real list \<times> real" where
  "particleLoopStored store n active grab tens rnd tgts =
     fold (updateParticleStored store active grab tens rnd tgts) [0..<n]"

definition animateStored :: "(real \<Rightarrow> real) \<Rightarrow> nat \<Rightarrow> (nat \<Rightarrow> real) \<Rightarrow> EngineState \<Rightarrow> EngineState" where
  "animateStored store n rnd state =
     (let h = hand state;
          targetScale = (if isPresent h then 0.5 + expansion h * 2.0 else 1.2);
          scale' = currentScale state + (targetScale - currentScale state) * gestureResponseSpeed;
          rotVel' = (if isPresent h then (rotationVelocity state + rotation h * 0.015) * 0.92
                     else rotationVelocity state * 0.92);
          rotX' = (if isPresent h
                   then rotationX state + (- centerY h * 0.6 - rotationX state) * gestureResponseSpeed
                   else rotationX state * 0.995);
          rotY' = (if isPresent h
                   then rotationY state + (centerX h * 0.6 - rotationY state) * gestureResponseSpeed
                        + rotVel'
                   else rotationY state + idleRotationSpeed);
          tens = (if isPresent h then tension h else 0);
          (pos', vels', maxVel) =
             particleLoopStored store n (explosionActive state) (grabbing h) tens rnd (targets state)
               (positions state, explosionVelocities state, 0);
          active' = (if explosionActive state \<and> maxVel < 0.008 then False
                     else explosionActive state);
          twistPulse = (if isPresent h then 1 + twist h * 0.25 else 1)
      in state\<lparr> explosionActive := active', explosionVelocities := vels',
                currentScale := scale', rotationVelocity := rotVel',
                positions := pos', rotationX := rotX', rotationY := rotY',
                materialSize := baseParticleSize * twistPulse \<rparr>)"

text \<open>A run of ticks, one random source per tick.\<close>

definition ticksStored :: "(real \<Rightarrow> real) \<Rightarrow> nat \<Rightarrow> (nat \<Rightarrow> real) list \<Rightarrow> EngineState \<Rightarrow> EngineState" where
  "ticksStored store n rnds state = fold (animateStored store n) rnds state"

subsection \<open>Histories\<close>

text \<open>
  The callbacks run one at a time on a single thread; a history is the list of callbacks
  in the order they ran, each with the random values it drew.
\<close>

datatype Event =
    Tick "nat \<Rightarrow> real"
  | HandUpdate "nat \<Rightarrow> real" HandData
  | ShapeChange "real list"

fun step :: "nat \<Rightarrow> Event \<Rightarrow> EngineState \<Rightarrow> EngineState" where
  "step n (Tick rnd) state = animate n rnd state"
| "step n (HandUpdate rnd data) state = handleHandUpdate n rnd data state"
| "step n (ShapeChange cloud) state = changeShape cloud state"

definition run :: "nat \<Rightarrow> Event list \<Rightarrow> EngineState \<Rightarrow> EngineState" where
  "run n evs state = fold (step n) evs state"

section \<open>Predicates and sample inputs used in the statements\<close>

text \<open>
  \<open>approaches neutral old new\<close>: the new value lies between the old value and the neutral
  value (no overshoot), and is strictly nearer to the neutral value unless the old value
  was already there.
\<close>

definition approaches :: "real \<Rightarrow> real \<Rightarrow> real \<Rightarrow> bool" where
  "approaches neutral old new \<longleftrightarrow>
     (old \<le> neutral \<longrightarrow> old \<le> new \<and> new \<le> neutral) \<and>
     (neutral \<le> old \<longrightarrow> neutral \<le> new \<and> new \<le> old) \<and>
     (old \<noteq> neutral \<longrightarrow> \<bar>new - neutral\<bar> < \<bar>old - neutral\<bar>)"

text \<open>
  The spec's remap of a distance from the calibration range \<open>[dmin, dmax]\<close> to \<open>[0,1]\<close>,
  clamped.
\<close>

definition remapClamp :: "real \<Rightarrow> real \<Rightarrow> real \<Rightarrow> real" where
  "remapClamp dmin dmax d = max 0 (min 1 ((d - dmin) / (dmax - dmin)))"

text \<open>A landmark inside the normalized coordinate space, and a frame made of such landmarks.\<close>

definition inUnit :: "Landmark \<Rightarrow> bool" where
  "inUnit p \<longleftrightarrow> 0 \<le> lm_x p \<and> lm_x p \<le> 1 \<and> 0 \<le> lm_y p \<and> lm_y p \<le> 1"

definition normalizedFrame :: "Landmark list list option \<Rightarrow> bool" where
  "normalizedFrame landmarks \<longleftrightarrow>
     (case landmarks of None \<Rightarrow> True | Some hands \<Rightarrow> list_all (list_all inUnit) hands)"

text \<open>The documented ranges of the six bounded fields, on the tracker and on a signal.\<close>

definition smoothedInRange :: "Smoothed \<Rightarrow> bool" where
  "smoothedInRange s \<longleftrightarrow>
     0 \<le> s_expansion s \<and> s_expansion s \<le> 1 \<and> 0 \<le> s_tension s \<and> s_tension s \<le> 1 \<and>
     0 \<le> s_twist s \<and> s_twist s \<le> 1 \<and> - 1 \<le> s_rotation s \<and> s_rotation s \<le> 1 \<and>
     - 1 \<le> s_centerX s \<and> s_centerX s \<le> 1 \<and> - 1 \<le> s_centerY s \<and> s_centerY s \<le> 1"

definition signalInRange :: "HandData \<Rightarrow> bool" where
  "signalInRange sig \<longleftrightarrow>
     0 \<le> expansion sig \<and> expansion sig \<le> 1 \<and> 0 \<le> tension sig \<and> tension sig \<le> 1 \<and>
     0 \<le> twist sig \<and> twist sig \<le> 1 \<and> - 1 \<le> rotation sig \<and> rotation sig \<le> 1 \<and>
     - 1 \<le> centerX sig \<and> centerX sig \<le> 1 \<and> - 1 \<le> centerY sig \<and> centerY sig \<le> 1"

text \<open>The tracker after a sequence of frames, each given as \<open>(results.landmarks, timestamp)\<close>.\<close>

fun feed :: "(Landmark list list option \<times> real) list \<Rightarrow> Tracker \<Rightarrow> Tracker" where
  "feed [] tr = tr"
| "feed ((landmarks, timestamp) # frames) tr = feed frames (fst (processResults landmarks timestamp tr))"

text \<open>A complete hand (21 landmarks) with every landmark at the same point.\<close>

definition handAt :: "real \<Rightarrow> real \<Rightarrow> Landmark list" where
  "handAt px py = replicate 21 (Landmark px py)"

text \<open>
  The velocity as the spec words it: the displacement of the centre over the elapsed time,
  blended into the previous value, and clamped after the blend.
\<close>

definition velocityAsSpecified :: "real \<Rightarrow> real \<Rightarrow> real \<Rightarrow> real \<Rightarrow> real" where
  "velocityAsSpecified prev displacement dt rate = max 0 (min 1 (lerp prev (displacement / dt) rate))"

text \<open>A tracker in the middle of a gesture, away from every neutral value.\<close>

definition demoTracker :: Tracker where
  "demoTracker =
     \<lparr> smoothedRef = \<lparr> s_expansion = 0.9, s_tension = 0.8, s_centerX = 0.25, s_centerY = - 0.5,
                       s_rotation = - 0.4, s_twist = 0.6, s_velocity = 1 \<rparr>,
       prevFrameRef = \<lparr> p_centerX = 0.25, p_centerY = - 0.5, p_timestamp = 1000,
                        p_hand1Y = 0.5, p_hand2Y = 0.5 \<rparr> \<rparr>"

text \<open>The aggregate velocity of particle \<open>i\<close>: the sum of the absolute values of its three
  components, as the tick computes \<open>vel\<close>.\<close>

definition aggregate :: "real list \<Rightarrow> nat \<Rightarrow> real" where
  "aggregate vels i = \<bar>vels ! (i * 3)\<bar> + \<bar>vels ! (i * 3 + 1)\<bar> + \<bar>vels ! (i * 3 + 2)\<bar>"

text \<open>The largest aggregate velocity over the \<open>n\<close> particles, accumulated from 0 as the
  tick accumulates \<open>maxVel\<close>.\<close>

definition maxAggregate :: "nat \<Rightarrow> real list \<Rightarrow> real" where
  "maxAggregate n vels =
     fold (\<lambda>i maxVel. let vel = aggregate vels i in if vel > maxVel then vel else maxVel) [0..<n] 0"

text \<open>Position coordinate \<open>j\<close> after one tick, in closed form: both branches of the particle
  loop treat the three coordinates of a particle alike.\<close>

definition coordAfter ::
  "bool \<Rightarrow> bool \<Rightarrow> real \<Rightarrow> (nat \<Rightarrow> real) \<Rightarrow> real list \<Rightarrow> real list \<Rightarrow> real list \<Rightarrow> nat \<Rightarrow> real" where
  "coordAfter active grab tens rnd tgts pos vels j =
     (if active
      then (pos ! j + vels ! j) + (pullTarget grab tens (tgts ! j) - (pos ! j + vels ! j)) * lerpSpeed * 0.4
      else pos ! j + ((pullTarget grab tens (tgts ! j) - pos ! j) * lerpSpeed + (rnd j - 0.5) * (tens * 0.1)))"

text \<open>Ticks in a history, and the events whose signal meets the velocity and expansion
  thresholds of the clap condition.\<close>

fun isTick :: "Event \<Rightarrow> bool" where
  "isTick (Tick rnd) = True"
| "isTick (HandUpdate rnd data) = False"
| "isTick (ShapeChange cloud) = False"

definition tickCount :: "Event list \<Rightarrow> nat" where
  "tickCount evs = length (filter isTick evs)"

fun triggering :: "Event \<Rightarrow> bool" where
  "triggering (Tick rnd) = False"
| "triggering (HandUpdate rnd data) = (velocity data > 0.4 \<and> expansion data < 0.25)"
| "triggering (ShapeChange cloud) = False"

text \<open>The tension the tick works with: \<open>hand.isPresent ? hand.tension : 0\<close>.\<close>

definition effectiveTension :: "HandData \<Rightarrow> real" where
  "effectiveTension h = (if isPresent h then tension h else 0)"

text \<open>The divisor and the impulse of particle \<open>i\<close> in the clap loop.\<close>

definition particleDist :: "real list \<Rightarrow> nat \<Rightarrow> real" where
  "particleDist pos i =
     (let d = sqrt (pos ! (i * 3) * pos ! (i * 3) + pos ! (i * 3 + 1) * pos ! (i * 3 + 1)
                    + pos ! (i * 3 + 2) * pos ! (i * 3 + 2))
      in if d = 0 then 1 else d)"

definition particleForce :: "(nat \<Rightarrow> real) \<Rightarrow> nat \<Rightarrow> real" where
  "particleForce rnd i = explosionForce * (0.7 + rnd i * 0.6)"

text \<open>Sample inputs: a random source that always returns 0.5, and a signal that meets the
  clap thresholds.\<close>

definition halfRnd :: "nat \<Rightarrow> real" where
  "halfRnd i = 0.5"

definition clapSignal :: HandData where
  "clapSignal = \<lparr> expansion = 0.1, tension = 0, isPresent = True, centerX = 0, centerY = 0,
                   rotation = 0, twist = 0, velocity = 0.9, grabbing = False \<rparr>"

text \<open>
  The invariant of the engine: the buffers keep their \<open>n * 3\<close> cells, and while no
  explosion is active every aggregate velocity is below the threshold of the tick.
\<close>

definition residualInv :: "nat \<Rightarrow> EngineState \<Rightarrow> bool" where
  "residualInv n st \<longleftrightarrow>
     length (positions st) = n * 3 \<and> length (explosionVelocities st) = n * 3 \<and>
     (\<not> explosionActive st \<longrightarrow> (\<forall>i<n. aggregate (explosionVelocities st) i < 0.008))"

text \<open>Particle \<open>i\<close> sits at the origin; its three velocity components are zero.\<close>

definition atOrigin :: "real list \<Rightarrow> nat \<Rightarrow> bool" where
  "atOrigin pos i \<longleftrightarrow> pos ! (i * 3) = 0 \<and> pos ! (i * 3 + 1) = 0 \<and> pos ! (i * 3 + 2) = 0"

definition zeroVelocity :: "real list \<Rightarrow> nat \<Rightarrow> bool" where
  "zeroVelocity vels i \<longleftrightarrow> vels ! (i * 3) = 0 \<and> vels ! (i * 3 + 1) = 0 \<and> vels ! (i * 3 + 2) = 0"

text \<open>The Euclidean length of the position, or of the velocity, of particle \<open>i\<close>.\<close>

definition norm3 :: "real list \<Rightarrow> nat \<Rightarrow> real" where
  "norm3 xs i = sqrt (xs ! (i * 3) * xs ! (i * 3) + xs ! (i * 3 + 1) * xs ! (i * 3 + 1)
                      + xs ! (i * 3 + 2) * xs ! (i * 3 + 2))"

text \<open>
  The velocity of particle \<open>i\<close> is \<open>f\<close> times the unit vector from the origin to its
  position.
\<close>

definition radialImpulse :: "real list \<Rightarrow> real list \<Rightarrow> nat \<Rightarrow> real \<Rightarrow> bool" where
  "radialImpulse pos vels i f \<longleftrightarrow>
     norm3 pos i \<noteq> 0 \<and>
     vels ! (i * 3) = pos ! (i * 3) / norm3 pos i * f \<and>
     vels ! (i * 3 + 1) = pos ! (i * 3 + 1) / norm3 pos i * f \<and>
     vels ! (i * 3 + 2) = pos ! (i * 3 + 2) / norm3 pos i * f"

text \<open>The pull fraction of the tick: 0.6 when grabbing, else \<open>(tension - 0.5) * 0.8\<close>.\<close>

definition pullFraction :: "bool \<Rightarrow> real \<Rightarrow> real" where
  "pullFraction grab tens = (if grab then 0.6 else (tens - 0.5) * 0.8)"

text \<open>One particle at \<open>(1, 0, 0)\<close>, just after a clap with the random value 0.5.\<close>

definition explodedOne :: EngineState where
  "explodedOne = handleHandUpdate 1 halfRnd clapSignal (initEngine 1 [1, 0, 0] [1, 0, 0])"

text \<open>A state whose signal reports two clenched hands, over one particle at the origin.\<close>

definition grabState :: EngineState where
  "grabState = (initEngine 1 [0, 0, 0] [1, 1, 1])
     \<lparr> hand := \<lparr> expansion = 0.5, tension = 0.8, isPresent = True, centerX = 0, centerY = 0,
                  rotation = 0, twist = 0, velocity = 0, grabbing = True \<rparr> \<rparr>"

text \<open>Position coordinate \<open>j\<close> after one tick with stores, in closed form.\<close>

definition coordAfterStored ::
  "(real \<Rightarrow> real) \<Rightarrow> bool \<Rightarrow> bool \<Rightarrow> real \<Rightarrow> (nat \<Rightarrow> real) \<Rightarrow> real list \<Rightarrow> real list \<Rightarrow> real list \<Rightarrow>
   nat \<Rightarrow> real" where
  "coordAfterStored store active grab tens rnd tgts pos vels j =
     (if active
      then store (store (pos ! j + vels ! j) +
                  (pullTarget grab tens (tgts ! j) - store (pos ! j + vels ! j)) * lerpSpeed * 0.4)
      else store (pos ! j + ((pullTarget grab tens (tgts ! j) - pos ! j) * lerpSpeed
                             + (rnd j - 0.5) * (tens * 0.1))))"

text \<open>
  One particle whose coordinates are the single-precision number just below 5, with the
  targets at 5; and a state whose signal reports no hand while the tension is still 0.8.
\<close>

definition stallState :: EngineState where
  "stallState = initEngine 1 [5 - 1 / 2097152, 5 - 1 / 2097152, 5 - 1 / 2097152] [5, 5, 5]"

definition absentTense :: EngineState where
  "absentTense = (initEngine 1 [0, 0, 0] [200, 200, 200])
     \<lparr> hand := \<lparr> expansion = 0.5, tension = 0.8, isPresent = False, centerX = 0, centerY = 0,
                  rotation = 0, twist = 0, velocity = 0, grabbing = False \<rparr> \<rparr>"

section \<open>Properties of the extractor\<close>

subsection \<open>Blending\<close>

lemma lerp_approaches:
  assumes "0 < r" "r < 1"
  shows "approaches n v (lerp v n r)"
proof -
  have e: "lerp v n r - n = (1 - r) * (v - n)"
    by (simp add: lerp_def algebra_simps)
  have a: "v \<le> n \<Longrightarrow> v \<le> lerp v n r \<and> lerp v n r \<le> n"
  proof -
    assume h: "v \<le> n"
    have "0 \<le> (n - v) * r" using h assms by simp
    moreover have "(n - v) * r \<le> (n - v) * 1"
      using h assms by (intro mult_left_mono) auto
    ultimately show ?thesis by (simp add: lerp_def)
  qed
  have b: "n \<le> v \<Longrightarrow> n \<le> lerp v n r \<and> lerp v n r \<le> v"
  proof -
    assume h: "n \<le> v"
    have "0 \<le> (v - n) * r" using h assms by simp
    moreover have "(v - n) * r \<le> (v - n) * 1"
      using h assms by (intro mult_left_mono) auto
    ultimately show ?thesis by (simp add: lerp_def algebra_simps)
  qed
  have c: "v \<noteq> n \<Longrightarrow> \<bar>lerp v n r - n\<bar> < \<bar>v - n\<bar>"
  proof -
    assume h: "v \<noteq> n"
    have "\<bar>lerp v n r - n\<bar> = (1 - r) * \<bar>v - n\<bar>"
      using assms by (simp add: e abs_mult)
    also have "\<dots> < 1 * \<bar>v - n\<bar>"
      using h assms by (intro mult_strict_right_mono) auto
    finally show ?thesis by simp
  qed
  show ?thesis unfolding approaches_def using a b c by blast
qed

text \<open>Every emitted signal carries the smoothed values the call leaves in the tracker.\<close>

lemma emitted_is_smoothed:
  assumes "processResults l t tr = (tr', Some sig)"
  shows "expansion sig = s_expansion (smoothedRef tr') \<and> tension sig = s_tension (smoothedRef tr')
       \<and> rotation sig = s_rotation (smoothedRef tr') \<and> twist sig = s_twist (smoothedRef tr')
       \<and> velocity sig = s_velocity (smoothedRef tr') \<and> centerX sig = s_centerX (smoothedRef tr')
       \<and> centerY sig = s_centerY (smoothedRef tr')"
  using assms
  by (auto simp: processResults_def processAbsent_def processPresent_def processThrow_def
        emit_def Let_def split: option.splits if_splits)

lemma processResults_absent:
  assumes "l = None \<or> l = Some []"
  shows "processResults l t tr = processAbsent tr"
  using assms by (auto simp: processResults_def)

subsection \<open>Calls with hands\<close>

lemma processPresent_emits:
  "snd (processPresent hands t tr) =
     Some (emit (smoothedRef (fst (processPresent hands t tr))) True (grabbingOf hands))"
  by (simp add: processPresent_def Let_def)

lemma processPresent_expansion:
  "s_expansion (smoothedRef (fst (processPresent hands t tr))) =
     lerp (s_expansion (smoothedRef tr)) (rawExpansionOf hands) smoothingSpeed"
  by (simp add: processPresent_def Let_def)

lemma processPresent_velocity:
  "s_velocity (smoothedRef (fst (processPresent hands t tr))) =
     velocityStep hands t (storeHandY hands (prevFrameRef tr)) (s_velocity (smoothedRef tr))"
  by (simp add: processPresent_def Let_def)

lemma processResults_emits_present:
  assumes "processResults (Some hands) t tr = (tr', Some sig)" "hands \<noteq> []"
  shows "list_all (\<lambda>h. 21 \<le> length h) hands \<and> tr' = fst (processPresent hands t tr)"
  using assms
  by (auto simp: processResults_def processThrow_def split: if_splits)

lemma processResults_present:
  assumes "hands \<noteq> []" "list_all (\<lambda>h. 21 \<le> length h) hands"
  shows "processResults (Some hands) t tr =
           (fst (processPresent hands t tr),
            Some (emit (smoothedRef (fst (processPresent hands t tr))) True (grabbingOf hands)))"
proof -
  have "processResults (Some hands) t tr = processPresent hands t tr"
    using assms by (simp add: processResults_def)
  then show ?thesis using processPresent_emits[of hands t tr] by (simp add: prod_eq_iff)
qed

lemma handAt_complete: "list_all (\<lambda>h. 21 \<le> length h) [handAt a b]"
  "list_all (\<lambda>h. 21 \<le> length h) [handAt a b, handAt c d]"
  by (simp_all add: handAt_def)

lemma handAt_wrist: "handAt a b ! 0 = Landmark a b"
  by (simp add: handAt_def)

subsection \<open>Ranges\<close>

lemma lerp_between:
  assumes "lo \<le> v" "v \<le> hi" "lo \<le> w" "w \<le> hi" "0 \<le> r" "r \<le> 1"
  shows "lo \<le> lerp v w r \<and> lerp v w r \<le> hi"
proof -
  have eq: "lerp v w r = (1 - r) * v + r * w"
    by (simp add: lerp_def algebra_simps)
  have "(1 - r) * lo + r * lo \<le> (1 - r) * v + r * w"
    using assms by (intro add_mono mult_left_mono) auto
  moreover have "(1 - r) * v + r * w \<le> (1 - r) * hi + r * hi"
    using assms by (intro add_mono mult_left_mono) auto
  ultimately show ?thesis
    unfolding eq by (simp add: algebra_simps)
qed

lemma rawExpansionOf_range: "0 \<le> rawExpansionOf hands \<and> rawExpansionOf hands \<le> 1"
  by (simp add: rawExpansionOf_def Let_def)

lemma rawRotationOf_range: "- 1 \<le> rawRotationOf hands pf \<and> rawRotationOf hands pf \<le> 1"
  by (simp add: rawRotationOf_def Let_def)

lemma rawTwistOf_range: "0 \<le> rawTwistOf hands pf \<and> rawTwistOf hands pf \<le> 1"
  by (simp add: rawTwistOf_def Let_def)

lemma handTension_range: "0 \<le> handTension h \<and> handTension h \<le> 1"
  by (simp add: handTension_def Let_def)

lemma sum_list_bounds:
  fixes f :: "'a \<Rightarrow> real"
  assumes "\<And>x. x \<in> set xs \<Longrightarrow> lo \<le> f x \<and> f x \<le> hi"
  shows "real (length xs) * lo \<le> (\<Sum>x\<leftarrow>xs. f x) \<and> (\<Sum>x\<leftarrow>xs. f x) \<le> real (length xs) * hi"
  using assms
proof (induction xs)
  case Nil
  then show ?case by simp
next
  case (Cons a xs)
  have "lo \<le> f a \<and> f a \<le> hi" using Cons.prems by simp
  moreover have "real (length xs) * lo \<le> (\<Sum>x\<leftarrow>xs. f x) \<and> (\<Sum>x\<leftarrow>xs. f x) \<le> real (length xs) * hi"
    using Cons by simp
  ultimately show ?case by (simp add: algebra_simps)
qed

lemma mean_bounds:
  fixes f :: "'a \<Rightarrow> real"
  assumes "xs \<noteq> []" "\<And>x. x \<in> set xs \<Longrightarrow> lo \<le> f x \<and> f x \<le> hi"
  shows "lo \<le> (\<Sum>x\<leftarrow>xs. f x) / real (length xs) \<and> (\<Sum>x\<leftarrow>xs. f x) / real (length xs) \<le> hi"
proof -
  have pos: "0 < real (length xs)" using assms(1) by simp
  from sum_list_bounds[of xs lo f hi] assms(2)
  have "real (length xs) * lo \<le> (\<Sum>x\<leftarrow>xs. f x) \<and> (\<Sum>x\<leftarrow>xs. f x) \<le> real (length xs) * hi"
    by blast
  then show ?thesis using pos by (simp add: pos_le_divide_eq pos_divide_le_eq mult.commute)
qed

lemma rawTensionOf_range:
  assumes "hands \<noteq> []"
  shows "0 \<le> rawTensionOf hands \<and> rawTensionOf hands \<le> 1"
  unfolding rawTensionOf_def
  using mean_bounds[OF assms, of 0 handTension 1] handTension_range by blast

lemma wrist_inUnit:
  assumes "list_all (list_all inUnit) hands" "list_all (\<lambda>h. 21 \<le> length h) hands" "h \<in> set hands"
  shows "inUnit (h ! 0)"
proof -
  have a: "list_all inUnit h" and b: "21 \<le> length h"
    using assms by (auto simp: list_all_iff)
  have "0 < length h" using b by (cases h) auto
  then have "h ! 0 \<in> set h" by (rule nth_mem)
  then show ?thesis using a by (simp add: list_all_iff)
qed

lemma rawCenter_range:
  assumes "hands \<noteq> []" "list_all (list_all inUnit) hands" "list_all (\<lambda>h. 21 \<le> length h) hands"
  shows "- 1 \<le> rawCenterXOf hands \<and> rawCenterXOf hands \<le> 1 \<and>
         - 1 \<le> rawCenterYOf hands \<and> rawCenterYOf hands \<le> 1"
proof -
  have x: "0 \<le> meanWristX hands \<and> meanWristX hands \<le> 1"
    unfolding meanWristX_def
    using mean_bounds[OF assms(1), of 0 "\<lambda>h. lm_x (h ! 0)" 1] wrist_inUnit[OF assms(2,3)]
    by (simp add: inUnit_def)
  have y: "0 \<le> meanWristY hands \<and> meanWristY hands \<le> 1"
    unfolding meanWristY_def
    using mean_bounds[OF assms(1), of 0 "\<lambda>h. lm_y (h ! 0)" 1] wrist_inUnit[OF assms(2,3)]
    by (simp add: inUnit_def)
  show ?thesis using x y by (simp add: rawCenterXOf_def rawCenterYOf_def)
qed

lemma smoothingSpeed_unit: "0 \<le> smoothingSpeed \<and> smoothingSpeed \<le> 1
  \<and> 0 \<le> smoothingSpeed * 0.5 \<and> smoothingSpeed * 0.5 \<le> 1
  \<and> 0 \<le> smoothingSpeed * 0.3 \<and> smoothingSpeed * 0.3 \<le> 1"
  by (simp add: smoothingSpeed_def)

lemma processPresent_range:
  assumes inv: "smoothedInRange (smoothedRef tr)" and ne: "hands \<noteq> []"
      and norm: "list_all (list_all inUnit) hands" and full: "list_all (\<lambda>h. 21 \<le> length h) hands"
  shows "smoothedInRange (smoothedRef (fst (processPresent hands t tr)))"
proof -
  note c = rawCenter_range[OF ne norm full]
  note s = smoothingSpeed_unit
  note i = inv[unfolded smoothedInRange_def]
  show ?thesis
    unfolding processPresent_def Let_def smoothedInRange_def
    using lerp_between[of 0 "s_expansion (smoothedRef tr)" 1 "rawExpansionOf hands" smoothingSpeed]
      lerp_between[of 0 "s_tension (smoothedRef tr)" 1 "rawTensionOf hands" smoothingSpeed]
      lerp_between[of 0 "s_twist (smoothedRef tr)" 1 "rawTwistOf hands (prevFrameRef tr)" "smoothingSpeed * 0.3"]
      lerp_between[of "- 1" "s_rotation (smoothedRef tr)" 1 "rawRotationOf hands (prevFrameRef tr)" "smoothingSpeed * 0.5"]
      lerp_between[of "- 1" "s_centerX (smoothedRef tr)" 1 "rawCenterXOf hands" smoothingSpeed]
      lerp_between[of "- 1" "s_centerY (smoothedRef tr)" 1 "rawCenterYOf hands" smoothingSpeed]
      rawExpansionOf_range[of hands] rawTensionOf_range[OF ne] rawTwistOf_range[of hands "prevFrameRef tr"]
      rawRotationOf_range[of hands "prevFrameRef tr"] c s i
    by simp
qed

lemma processAbsent_range:
  assumes inv: "smoothedInRange (smoothedRef tr)"
  shows "smoothedInRange (smoothedRef (fst (processAbsent tr)))"
proof -
  note i = inv[unfolded smoothedInRange_def]
  show ?thesis
    unfolding processAbsent_def Let_def smoothedInRange_def decayAbsent_def
    using lerp_between[of 0 "s_expansion (smoothedRef tr)" 1 "0.5" "0.05"]
      lerp_between[of 0 "s_tension (smoothedRef tr)" 1 0 "0.05"]
      lerp_between[of 0 "s_twist (smoothedRef tr)" 1 0 "0.05"]
      lerp_between[of "- 1" "s_rotation (smoothedRef tr)" 1 0 "0.05"] i
    by simp
qed

lemma processResults_range:
  assumes "smoothedInRange (smoothedRef tr)" "normalizedFrame landmarks"
  shows "smoothedInRange (smoothedRef (fst (processResults landmarks t tr)))"
proof (cases landmarks)
  case None
  then show ?thesis using processAbsent_range[OF assms(1)] by (simp add: processResults_def)
next
  case (Some hands)
  show ?thesis
  proof (cases "hands = []")
    case True
    then show ?thesis using Some processAbsent_range[OF assms(1)] by (simp add: processResults_def)
  next
    case False
    show ?thesis
    proof (cases "list_all (\<lambda>h. 21 \<le> length h) hands")
      case True
      have "list_all (list_all inUnit) hands" using assms(2) Some by (simp add: normalizedFrame_def)
      from processPresent_range[OF assms(1) False this True]
      show ?thesis using Some False True by (simp add: processResults_def)
    next
      case nf: False
      then show ?thesis using Some False assms(1) by (simp add: processResults_def processThrow_def)
    qed
  qed
qed

lemma feed_range:
  assumes "smoothedInRange (smoothedRef tr)" "list_all (\<lambda>(l, t). normalizedFrame l) frames"
  shows "smoothedInRange (smoothedRef (feed frames tr))"
  using assms
proof (induction frames arbitrary: tr)
  case Nil
  then show ?case by simp
next
  case (Cons fr frames)
  obtain l t where fr: "fr = (l, t)" by (cases fr)
  have "smoothedInRange (smoothedRef (fst (processResults l t tr)))"
    using Cons.prems fr processResults_range by simp
  then show ?case using Cons fr by simp
qed

lemma init_range: "smoothedInRange (smoothedRef initTracker)"
  by (simp add: smoothedInRange_def initTracker_def)

text \<open>
  C5. Start from the initial tracker and feed it any sequence of frames whose landmarks lie
  in the normalized coordinate space \<open>[0,1] \<times> [0,1]\<close> (its corners included). Every signal a
  further such frame emits has expansion, tension and twist in \<open>[0,1]\<close> and rotation,
  centerX and centerY in \<open>[-1,1]\<close>, and the tracker's smoothed values keep these ranges.
\<close>

theorem signal_bounds:
  assumes "list_all (\<lambda>(l, t). normalizedFrame l) frames" "normalizedFrame landmarks"
      and "processResults landmarks timestamp (feed frames initTracker) = (tr', Some sig)"
  shows "signalInRange sig \<and> smoothedInRange (smoothedRef tr')"
proof -
  have "smoothedInRange (smoothedRef (feed frames initTracker))"
    using feed_range[OF init_range assms(1)] .
  from processResults_range[OF this assms(2), of timestamp]
  have r: "smoothedInRange (smoothedRef tr')" using assms(3) by simp
  from emitted_is_smoothed[OF assms(3)] r show ?thesis
    by (simp add: signalInRange_def smoothedInRange_def)
qed

theorem signal_bounds_witness:
  "signalInRange (emit (smoothedRef (fst (processPresent [handAt 1 0] 1016
       (feed [(Some [handAt 0 0, handAt 1 1], 1000), (None, 1008)] initTracker)))) True
       (grabbingOf [handAt 1 0]))"
proof -
  have n1: "list_all (\<lambda>(l, t). normalizedFrame l) [(Some [handAt 0 0, handAt 1 1], 1000), (None, 1008)]"
    by (simp add: normalizedFrame_def handAt_def inUnit_def list_all_iff)
  have n2: "normalizedFrame (Some [handAt 1 0])"
    by (simp add: normalizedFrame_def handAt_def inUnit_def list_all_iff)
  have c: "processResults (Some [handAt 1 0]) 1016
             (feed [(Some [handAt 0 0, handAt 1 1], 1000), (None, 1008)] initTracker) =
           (fst (processPresent [handAt 1 0] 1016
                   (feed [(Some [handAt 0 0, handAt 1 1], 1000), (None, 1008)] initTracker)),
            Some (emit (smoothedRef (fst (processPresent [handAt 1 0] 1016
                   (feed [(Some [handAt 0 0, handAt 1 1], 1000), (None, 1008)] initTracker)))) True
                   (grabbingOf [handAt 1 0])))"
    by (rule processResults_present) (simp_all add: handAt_def)
  from signal_bounds [OF n1 n2 c] show ?thesis by simp
qed

subsection \<open>Expansion\<close>

text \<open>
  C8. Whenever a call emits a signal: with exactly two hands the raw expansion blended in
  is the Euclidean distance of the two wrists, remapped from \<open>[0.1, 23/30]\<close> to \<open>[0,1]\<close> and
  clamped; with any other positive number of hands it is 0.5; with no hands the expansion
  is blended towards 0.5 as well (at the absent-hand rate).
\<close>

theorem expansion_two_hands_only:
  assumes call: "processResults landmarks t tr = (tr', Some sig)"
  shows "(\<forall>h1 h2. landmarks = Some [h1, h2] \<longrightarrow>
            expansion sig = lerp (s_expansion (smoothedRef tr))
              (remapClamp 0.1 (23 / 30)
                 (sqrt ((lm_x (h1 ! 0) - lm_x (h2 ! 0)) ^ 2 + (lm_y (h1 ! 0) - lm_y (h2 ! 0)) ^ 2)))
              smoothingSpeed) \<and>
         (\<forall>hands. landmarks = Some hands \<and> hands \<noteq> [] \<and> length hands \<noteq> 2 \<longrightarrow>
            expansion sig = lerp (s_expansion (smoothedRef tr)) 0.5 smoothingSpeed) \<and>
         (landmarks = None \<or> landmarks = Some [] \<longrightarrow>
            expansion sig = lerp (s_expansion (smoothedRef tr)) 0.5 0.05)"
proof (intro conjI allI impI)
  fix h1 h2 assume l: "landmarks = Some [h1, h2]"
  from processResults_emits_present[of "[h1, h2]" t tr tr' sig] call l
  have tr': "tr' = fst (processPresent [h1, h2] t tr)" by simp
  have r: "rawExpansionOf [h1, h2] = remapClamp 0.1 (23 / 30)
          (sqrt ((lm_x (h1 ! 0) - lm_x (h2 ! 0)) ^ 2 + (lm_y (h1 ! 0) - lm_y (h2 ! 0)) ^ 2))"
    by (simp add: rawExpansionOf_def remapClamp_def wristDist_def Let_def)
  have "expansion sig = s_expansion (smoothedRef tr')"
    using emitted_is_smoothed[OF call] by blast
  also have "\<dots> = lerp (s_expansion (smoothedRef tr)) (rawExpansionOf [h1, h2]) smoothingSpeed"
    unfolding tr' by (rule processPresent_expansion)
  finally show "expansion sig = lerp (s_expansion (smoothedRef tr))
              (remapClamp 0.1 (23 / 30)
                 (sqrt ((lm_x (h1 ! 0) - lm_x (h2 ! 0)) ^ 2 + (lm_y (h1 ! 0) - lm_y (h2 ! 0)) ^ 2)))
              smoothingSpeed"
    unfolding r .
next
  fix hands assume l: "landmarks = Some hands \<and> hands \<noteq> [] \<and> length hands \<noteq> 2"
  from processResults_emits_present[of hands t tr tr' sig] call l
  have tr': "tr' = fst (processPresent hands t tr)" by simp
  have r: "rawExpansionOf hands = 0.5" using l by (simp add: rawExpansionOf_def)
  have "expansion sig = s_expansion (smoothedRef tr')"
    using emitted_is_smoothed[OF call] by blast
  also have "\<dots> = lerp (s_expansion (smoothedRef tr)) (rawExpansionOf hands) smoothingSpeed"
    unfolding tr' by (rule processPresent_expansion)
  finally show "expansion sig = lerp (s_expansion (smoothedRef tr)) 0.5 smoothingSpeed"
    unfolding r .
next
  assume l: "landmarks = None \<or> landmarks = Some []"
  have "processResults landmarks t tr = processAbsent tr"
    using l by (rule processResults_absent)
  then show "expansion sig = lerp (s_expansion (smoothedRef tr)) 0.5 0.05"
    using call by (auto simp: processAbsent_def Let_def emit_def decayAbsent_def)
qed

theorem expansion_two_hands_only_witness:
  "expansion (emit (smoothedRef (fst (processPresent [handAt 0 0, handAt 0.3 0.4] 1016 demoTracker)))
        True (grabbingOf [handAt 0 0, handAt 0.3 0.4]))
   = lerp 0.9 (remapClamp 0.1 (23 / 30) (sqrt ((0 - 0.3) ^ 2 + (0 - 0.4) ^ 2))) smoothingSpeed"
proof -
  have c: "processResults (Some [handAt 0 0, handAt 0.3 0.4]) 1016 demoTracker =
           (fst (processPresent [handAt 0 0, handAt 0.3 0.4] 1016 demoTracker),
            Some (emit (smoothedRef (fst (processPresent [handAt 0 0, handAt 0.3 0.4] 1016 demoTracker)))
                   True (grabbingOf [handAt 0 0, handAt 0.3 0.4])))"
    by (rule processResults_present) (simp_all add: handAt_def)
  have e: "s_expansion (smoothedRef demoTracker) = 0.9" by (simp add: demoTracker_def)
  from expansion_two_hands_only [OF c] show ?thesis
    unfolding e by (simp add: handAt_wrist)
qed

subsection \<open>Velocity\<close>

lemma velocityStep_cases:
  "velocityStep hands t pf v =
     (if 0 < (t - p_timestamp pf) / 1000 \<and> (t - p_timestamp pf) / 1000 < 0.5
      then lerp v (min 1 (sqrt ((meanWristX hands - p_centerX pf) * (meanWristX hands - p_centerX pf) +
                                (meanWristY hands - p_centerY pf) * (meanWristY hands - p_centerY pf))
                          / ((t - p_timestamp pf) / 1000) * 2)) 0.3
      else v)"
  by (simp add: velocityStep_def Let_def)

lemma storeHandY_keeps:
  "p_timestamp (storeHandY hands pf) = p_timestamp pf \<and> p_centerX (storeHandY hands pf) = p_centerX pf
   \<and> p_centerY (storeHandY hands pf) = p_centerY pf"
  by (simp add: storeHandY_def)

lemma velocity_step_general:
  assumes ne: "hands \<noteq> []" and full: "list_all (\<lambda>h. 21 \<le> length h) hands"
      and v0: "0 \<le> s_velocity (smoothedRef tr)" and v1: "s_velocity (smoothedRef tr) \<le> 1"
  shows "\<exists>tr' sig. processResults (Some hands) t tr = (tr', Some sig) \<and>
           (\<not> (0 < (t - p_timestamp (prevFrameRef tr)) / 1000 \<and>
               (t - p_timestamp (prevFrameRef tr)) / 1000 < 0.5) \<longrightarrow>
              velocity sig = s_velocity (smoothedRef tr)) \<and>
           (0 < (t - p_timestamp (prevFrameRef tr)) / 1000 \<and>
            (t - p_timestamp (prevFrameRef tr)) / 1000 < 0.5 \<longrightarrow>
              (\<exists>raw\<ge>0. velocity sig = lerp (s_velocity (smoothedRef tr)) (min 1 (raw * 2)) 0.3)) \<and>
           0 \<le> velocity sig \<and> velocity sig \<le> 1"
proof -
  define pf where "pf = storeHandY hands (prevFrameRef tr)"
  define dt where "dt = (t - p_timestamp (prevFrameRef tr)) / 1000"
  define raw where "raw = sqrt ((meanWristX hands - p_centerX pf) * (meanWristX hands - p_centerX pf) +
                    (meanWristY hands - p_centerY pf) * (meanWristY hands - p_centerY pf)) / dt"
  define v where "v = s_velocity (smoothedRef tr)"
  define out where "out = emit (smoothedRef (fst (processPresent hands t tr))) True (grabbingOf hands)"
  have pr: "processResults (Some hands) t tr = processPresent hands t tr"
    using ne full by (simp add: processResults_def)
  have call: "processResults (Some hands) t tr = (fst (processPresent hands t tr), Some out)"
    unfolding pr out_def using processPresent_emits[of hands t tr] by (simp add: prod_eq_iff)
  have vel: "velocity out = velocityStep hands t pf v"
    by (simp add: out_def pf_def v_def emit_def processPresent_velocity)
  have ts: "p_timestamp pf = p_timestamp (prevFrameRef tr)"
    unfolding pf_def using storeHandY_keeps by blast
  have step: "velocityStep hands t pf v =
                (if 0 < dt \<and> dt < 0.5 then lerp v (min 1 (raw * 2)) 0.3 else v)"
    unfolding velocityStep_cases ts dt_def raw_def by (rule refl)
  have rawpos: "0 < dt \<Longrightarrow> 0 \<le> raw"
    unfolding raw_def by (intro divide_nonneg_pos real_sqrt_ge_zero) auto
  have inrange: "0 \<le> velocity out \<and> velocity out \<le> 1"
  proof (cases "0 < dt \<and> dt < 0.5")
    case True
    then have "0 \<le> min 1 (raw * 2)" using rawpos by simp
    from lerp_between[of 0 v 1 "min 1 (raw * 2)" "0.3"] this v0 v1
    have "0 \<le> lerp v (min 1 (raw * 2)) 0.3 \<and> lerp v (min 1 (raw * 2)) 0.3 \<le> 1"
      by (simp add: v_def)
    moreover have "velocityStep hands t pf v = lerp v (min 1 (raw * 2)) 0.3"
      unfolding step by (rule if_P) (rule True)
    ultimately show ?thesis unfolding vel by simp
  next
    case False
    have "velocityStep hands t pf v = v" unfolding step by (rule if_not_P) (rule False)
    then show ?thesis unfolding vel using v0 v1 by (simp add: v_def)
  qed
  have keep: "\<not> (0 < dt \<and> dt < 0.5) \<longrightarrow> velocity out = v"
    unfolding vel step by simp
  have upd: "0 < dt \<and> dt < 0.5 \<longrightarrow> (\<exists>raw\<ge>0. velocity out = lerp v (min 1 (raw * 2)) 0.3)"
    unfolding vel step using rawpos by auto
  show ?thesis
    using call keep upd inrange unfolding dt_def v_def by blast
qed

lemma first_frame_state:
  "feed [(Some [handAt a b], 1000)] initTracker = fst (processPresent [handAt a b] 1000 initTracker)"
  by (simp add: processResults_present[OF _ handAt_complete(1)])

lemma first_frame_prev:
  "prevFrameRef (fst (processPresent [handAt a b] 1000 initTracker)) =
     \<lparr> p_centerX = (1 - a) * 2 - 1, p_centerY = - ((1 - b) * 2 - 1), p_timestamp = 1000,
       p_hand1Y = 0, p_hand2Y = 0 \<rparr>"
  by (simp add: processPresent_def Let_def storeHandY_def initTracker_def rawCenterXOf_def
      rawCenterYOf_def meanWristX_def meanWristY_def handAt_wrist)

lemma first_frame_velocity:
  "s_velocity (smoothedRef (fst (processPresent [handAt a b] 1000 initTracker))) = 0"
  by (simp add: processPresent_velocity velocityStep_def Let_def storeHandY_def initTracker_def)

lemma second_frame_velocity:
  "velocity (the (snd (processResults (Some [handAt c d]) 1100
       (feed [(Some [handAt a b], 1000)] initTracker)))) =
   lerp 0 (min 1 (sqrt ((c - ((1 - a) * 2 - 1)) * (c - ((1 - a) * 2 - 1)) +
                        (d - (- ((1 - b) * 2 - 1))) * (d - (- ((1 - b) * 2 - 1)))) / (1 / 10) * 2)) 0.3"
proof -
  define tr where "tr = fst (processPresent [handAt a b] 1000 initTracker)"
  have pf: "storeHandY [handAt c d] (prevFrameRef tr) = prevFrameRef tr"
    by (simp add: storeHandY_def)
  have "velocity (the (snd (processResults (Some [handAt c d]) 1100 tr))) =
          velocityStep [handAt c d] 1100 (prevFrameRef tr) (s_velocity (smoothedRef tr))"
    by (simp add: processResults_present[OF _ handAt_complete(1)] emit_def processPresent_velocity pf)
  also have "\<dots> = lerp 0 (min 1 (sqrt ((c - ((1 - a) * 2 - 1)) * (c - ((1 - a) * 2 - 1)) +
                        (d - (- ((1 - b) * 2 - 1))) * (d - (- ((1 - b) * 2 - 1)))) / (1 / 10) * 2)) 0.3"
    unfolding tr_def first_frame_prev first_frame_velocity
    by (simp add: velocityStep_def Let_def meanWristX_def meanWristY_def handAt_wrist)
  finally show ?thesis unfolding first_frame_state tr_def .
qed

lemma velocity_kept_in_range:
  assumes "0 \<le> s_velocity (smoothedRef tr)" "s_velocity (smoothedRef tr) \<le> 1"
  shows "0 \<le> s_velocity (smoothedRef (fst (processResults l t tr))) \<and>
         s_velocity (smoothedRef (fst (processResults l t tr))) \<le> 1"
proof -
  have absent: "0 \<le> s_velocity (smoothedRef (fst (processAbsent tr))) \<and>
         s_velocity (smoothedRef (fst (processAbsent tr))) \<le> 1"
    using lerp_between[of 0 "s_velocity (smoothedRef tr)" 1 0 "0.1"] assms
    by (simp add: processAbsent_def Let_def decayAbsent_def)
  show ?thesis
  proof (cases l)
    case None
    then show ?thesis using absent by (simp add: processResults_def)
  next
    case (Some hands)
    show ?thesis
    proof (cases "hands = []")
      case True
      then show ?thesis using Some absent by (simp add: processResults_def)
    next
      case ne: False
      show ?thesis
      proof (cases "list_all (\<lambda>h. 21 \<le> length h) hands")
        case True
        from velocity_step_general[OF ne True assms, of t]
        obtain tr' sig where c: "processResults (Some hands) t tr = (tr', Some sig)"
          and r: "0 \<le> velocity sig \<and> velocity sig \<le> 1" by blast
        from emitted_is_smoothed[OF c] r c show ?thesis using Some by simp
      next
        case False
        then show ?thesis using Some ne assms
          by (simp add: processResults_def processThrow_def)
      qed
    qed
  qed
qed

lemma feed_velocity_range:
  "0 \<le> s_velocity (smoothedRef (feed frames initTracker)) \<and>
   s_velocity (smoothedRef (feed frames initTracker)) \<le> 1"
proof -
  have "\<And>tr. 0 \<le> s_velocity (smoothedRef tr) \<and> s_velocity (smoothedRef tr) \<le> 1 \<Longrightarrow>
          0 \<le> s_velocity (smoothedRef (feed frames tr)) \<and> s_velocity (smoothedRef (feed frames tr)) \<le> 1"
  proof (induction frames)
    case Nil
    then show ?case by simp
  next
    case (Cons fr frames)
    obtain l t where fr: "fr = (l, t)" by (cases fr)
    from velocity_kept_in_range[of tr l t] Cons.prems
    have "0 \<le> s_velocity (smoothedRef (fst (processResults l t tr))) \<and>
          s_velocity (smoothedRef (fst (processResults l t tr))) \<le> 1" by simp
    from Cons.IH[OF this] show ?case by (simp add: fr)
  qed
  moreover have "0 \<le> s_velocity (smoothedRef initTracker) \<and> s_velocity (smoothedRef initTracker) \<le> 1"
    by (simp add: initTracker_def)
  ultimately show ?thesis by blast
qed

text \<open>
  C6, as amended. After any sequence of frames fed to the initial tracker, a frame with
  complete hands leaves the smoothed velocity unchanged unless the time since the
  previous frame with hands is positive and below 0.5 s; when it is, the velocity is
  blended at rate 0.3 towards a non-negative raw speed that is doubled and clamped to at
  most 1 before the blend. There is no clamp after the blend, and the emitted velocity
  stays in \<open>[0,1]\<close>.
\<close>

theorem velocity_update:
  assumes ne: "hands \<noteq> []" and full: "list_all (\<lambda>h. 21 \<le> length h) hands"
  shows "\<exists>tr' sig. processResults (Some hands) t (feed frames initTracker) = (tr', Some sig) \<and>
           (\<not> (0 < (t - p_timestamp (prevFrameRef (feed frames initTracker))) / 1000 \<and>
               (t - p_timestamp (prevFrameRef (feed frames initTracker))) / 1000 < 0.5) \<longrightarrow>
              velocity sig = s_velocity (smoothedRef (feed frames initTracker))) \<and>
           (0 < (t - p_timestamp (prevFrameRef (feed frames initTracker))) / 1000 \<and>
            (t - p_timestamp (prevFrameRef (feed frames initTracker))) / 1000 < 0.5 \<longrightarrow>
              (\<exists>raw\<ge>0. velocity sig =
                 lerp (s_velocity (smoothedRef (feed frames initTracker))) (min 1 (raw * 2)) 0.3)) \<and>
           0 \<le> velocity sig \<and> velocity sig \<le> 1"
  using velocity_step_general[OF ne full, of "feed frames initTracker" t] feed_velocity_range[of frames]
  by blast

theorem velocity_update_witness:
  "\<exists>tr' sig. processResults (Some [handAt (1 / 3) 0]) 1100
                 (feed [(Some [handAt (1 / 3) 1], 1000)] initTracker) = (tr', Some sig) \<and>
      (\<exists>raw\<ge>0. velocity sig = lerp 0 (min 1 (raw * 2)) 0.3) \<and> 0 \<le> velocity sig \<and> velocity sig \<le> 1"
proof -
  have h: "[handAt (1 / 3) 0] \<noteq> []" "list_all (\<lambda>h. 21 \<le> length h) [handAt (1 / 3) 0]"
    by (simp_all add: handAt_def)
  have v: "s_velocity (smoothedRef (feed [(Some [handAt (1 / 3) 1], 1000)] initTracker)) = 0"
    "(1100 - p_timestamp (prevFrameRef (feed [(Some [handAt (1 / 3) 1], 1000)] initTracker))) / 1000
       = 1 / 10"
    unfolding first_frame_state first_frame_prev first_frame_velocity by simp_all
  from velocity_update [OF h, of 1100 "[(Some [handAt (1 / 3) 1], 1000)]"] show ?thesis
    unfolding v by auto
qed

text \<open>
  Two frames 100 ms apart and what the second one emits. With the hand at rest at
  \<open>(1/3, 0)\<close> the velocity rises from 0 to 0.3, where a displacement of zero gives 0. With
  the hand moving from \<open>(1/3, 1)\<close> to \<open>(1/3, 0)\<close> the raw speed is 10 per second and the
  velocity is 0.3, where clamping after the blend gives 1.
\<close>

theorem velocity_counterexample:
  "velocity (the (snd (processResults (Some [handAt (1 / 3) 0]) 1100
       (feed [(Some [handAt (1 / 3) 0], 1000)] initTracker)))) = 0.3
   \<and> velocityAsSpecified 0 0 0.1 0.3 = 0
   \<and> velocity (the (snd (processResults (Some [handAt (1 / 3) 0]) 1100
       (feed [(Some [handAt (1 / 3) 1], 1000)] initTracker)))) = 0.3
   \<and> velocityAsSpecified 0 1 0.1 0.3 = 1"
  unfolding second_frame_velocity
  by (simp add: lerp_def velocityAsSpecified_def)

subsection \<open>Absent hands\<close>

lemma processPresent_fields:
  "s_expansion (smoothedRef (fst (processPresent hands t tr))) =
     s_expansion (smoothedRef tr) + (rawExpansionOf hands - s_expansion (smoothedRef tr)) * smoothingSpeed \<and>
   s_tension (smoothedRef (fst (processPresent hands t tr))) =
     s_tension (smoothedRef tr) + (rawTensionOf hands - s_tension (smoothedRef tr)) * smoothingSpeed \<and>
   s_rotation (smoothedRef (fst (processPresent hands t tr))) =
     s_rotation (smoothedRef tr) +
       (rawRotationOf hands (prevFrameRef tr) - s_rotation (smoothedRef tr)) * (smoothingSpeed * 0.5) \<and>
   s_twist (smoothedRef (fst (processPresent hands t tr))) =
     s_twist (smoothedRef tr) +
       (rawTwistOf hands (prevFrameRef tr) - s_twist (smoothedRef tr)) * (smoothingSpeed * 0.3)"
  by (simp add: processPresent_def Let_def lerp_def)

lemma velocity_active_rate:
  assumes "0 < (t - p_timestamp pf) / 1000 \<and> (t - p_timestamp pf) / 1000 < 0.5"
  shows "\<exists>raw\<ge>0. velocityStep hands t pf v = v + (min 1 (raw * 2) - v) * 0.3"
proof -
  define dt where "dt = (t - p_timestamp pf) / 1000"
  define raw where "raw = sqrt ((meanWristX hands - p_centerX pf) * (meanWristX hands - p_centerX pf) +
                                (meanWristY hands - p_centerY pf) * (meanWristY hands - p_centerY pf)) / dt"
  have dt: "0 < dt \<and> dt < 0.5" using assms unfolding dt_def .
  have "velocityStep hands t pf v =
          (if 0 < dt \<and> dt < 0.5 then lerp v (min 1 (raw * 2)) 0.3 else v)"
    unfolding velocityStep_cases dt_def raw_def by (rule refl)
  also have "\<dots> = lerp v (min 1 (raw * 2)) 0.3" by (rule if_P) (rule dt)
  finally have e: "velocityStep hands t pf v = v + (min 1 (raw * 2) - v) * 0.3"
    unfolding lerp_def .
  have "0 \<le> raw" unfolding raw_def using dt by (intro divide_nonneg_pos real_sqrt_ge_zero) auto
  then show ?thesis using e by blast
qed

text \<open>
  C3, as amended. A call that sees no hands (\<open>results.landmarks\<close> missing or empty) emits,
  from any tracker state, a signal with \<open>isPresent\<close> and \<open>grabbing\<close> false in which the
  distance of expansion from 0.5, and tension, rotation and twist, are 0.95 times their
  smoothed values, and velocity is 0.9 times its smoothed value: a blend towards the
  neutral value at rate 0.05, and 0.1 for velocity. Compared with the signal \<open>a\<close> of the
  call before, each of the five fields lies between its value in \<open>a\<close> and the neutral
  value and is strictly nearer to the neutral value, unless it was there. A call with
  hands blends expansion and tension at rate \<open>smoothingSpeed\<close>, rotation at
  \<open>smoothingSpeed * 0.5\<close>, twist at \<open>smoothingSpeed * 0.3\<close> and velocity at 0.3: the
  absent-hand rate is below the rate with hands for every field but twist, where 0.05
  exceeds \<open>smoothingSpeed * 0.3\<close>.
\<close>

theorem absent_hand_decay:
  assumes absent: "l = None \<or> l = Some []"
  shows "\<exists>tr' b. processResults l t tr = (tr', Some b) \<and> \<not> isPresent b \<and> \<not> grabbing b \<and>
           expansion b - 0.5 = (1 - 0.05) * (s_expansion (smoothedRef tr) - 0.5) \<and>
           tension b = (1 - 0.05) * s_tension (smoothedRef tr) \<and>
           rotation b = (1 - 0.05) * s_rotation (smoothedRef tr) \<and>
           twist b = (1 - 0.05) * s_twist (smoothedRef tr) \<and>
           velocity b = (1 - 0.1) * s_velocity (smoothedRef tr) \<and>
           (\<forall>l0 t0 tr0 a. processResults l0 t0 tr0 = (tr, Some a) \<longrightarrow>
              approaches 0.5 (expansion a) (expansion b) \<and> approaches 0 (tension a) (tension b) \<and>
              approaches 0 (rotation a) (rotation b) \<and> approaches 0 (twist a) (twist b) \<and>
              approaches 0 (velocity a) (velocity b)) \<and>
           (\<forall>hands t1 tr1 sig. hands \<noteq> [] \<and> processResults (Some hands) t1 tr = (tr1, Some sig) \<longrightarrow>
              expansion sig = s_expansion (smoothedRef tr) +
                 (rawExpansionOf hands - s_expansion (smoothedRef tr)) * smoothingSpeed \<and>
              tension sig = s_tension (smoothedRef tr) +
                 (rawTensionOf hands - s_tension (smoothedRef tr)) * smoothingSpeed \<and>
              rotation sig = s_rotation (smoothedRef tr) +
                 (rawRotationOf hands (prevFrameRef tr) - s_rotation (smoothedRef tr)) * (smoothingSpeed * 0.5) \<and>
              twist sig = s_twist (smoothedRef tr) +
                 (rawTwistOf hands (prevFrameRef tr) - s_twist (smoothedRef tr)) * (smoothingSpeed * 0.3) \<and>
              (0 < (t1 - p_timestamp (prevFrameRef tr)) / 1000 \<and>
               (t1 - p_timestamp (prevFrameRef tr)) / 1000 < 0.5 \<longrightarrow>
                 (\<exists>raw\<ge>0. velocity sig = s_velocity (smoothedRef tr) +
                    (min 1 (raw * 2) - s_velocity (smoothedRef tr)) * 0.3))) \<and>
           0.05 < smoothingSpeed \<and> 0.05 < smoothingSpeed * 0.5 \<and> smoothingSpeed * 0.3 < 0.05 \<and>
           (0.1 :: real) < 0.3"
proof -
  define s where "s = decayAbsent (smoothedRef tr)"
  define b where "b = emit s False False"
  have p: "processResults l t tr = (tr\<lparr> smoothedRef := s \<rparr>, Some b)"
    using processResults_absent[OF absent, of t tr]
    by (simp add: processAbsent_def Let_def s_def b_def)
  have flags: "\<not> isPresent b" "\<not> grabbing b" by (simp_all add: b_def emit_def)
  have lv: "expansion b = lerp (s_expansion (smoothedRef tr)) 0.5 0.05"
    "tension b = lerp (s_tension (smoothedRef tr)) 0 0.05"
    "rotation b = lerp (s_rotation (smoothedRef tr)) 0 0.05"
    "twist b = lerp (s_twist (smoothedRef tr)) 0 0.05"
    "velocity b = lerp (s_velocity (smoothedRef tr)) 0 0.1"
    by (simp_all add: b_def s_def emit_def decayAbsent_def)
  have vals: "expansion b - 0.5 = (1 - 0.05) * (s_expansion (smoothedRef tr) - 0.5)"
    "tension b = (1 - 0.05) * s_tension (smoothedRef tr)"
    "rotation b = (1 - 0.05) * s_rotation (smoothedRef tr)"
    "twist b = (1 - 0.05) * s_twist (smoothedRef tr)"
    "velocity b = (1 - 0.1) * s_velocity (smoothedRef tr)"
    unfolding lv lerp_def by (simp_all add: algebra_simps)
  have succ: "\<forall>l0 t0 tr0 a. processResults l0 t0 tr0 = (tr, Some a) \<longrightarrow>
              approaches 0.5 (expansion a) (expansion b) \<and> approaches 0 (tension a) (tension b) \<and>
              approaches 0 (rotation a) (rotation b) \<and> approaches 0 (twist a) (twist b) \<and>
              approaches 0 (velocity a) (velocity b)"
  proof (intro allI impI)
    fix l0 t0 tr0 a assume prev: "processResults l0 t0 tr0 = (tr, Some a)"
    note e = emitted_is_smoothed[OF prev]
    show "approaches 0.5 (expansion a) (expansion b) \<and> approaches 0 (tension a) (tension b) \<and>
              approaches 0 (rotation a) (rotation b) \<and> approaches 0 (twist a) (twist b) \<and>
              approaches 0 (velocity a) (velocity b)"
      unfolding lv using e by (simp add: lerp_approaches)
  qed
  have act: "\<forall>hands t1 tr1 sig. hands \<noteq> [] \<and> processResults (Some hands) t1 tr = (tr1, Some sig) \<longrightarrow>
              expansion sig = s_expansion (smoothedRef tr) +
                 (rawExpansionOf hands - s_expansion (smoothedRef tr)) * smoothingSpeed \<and>
              tension sig = s_tension (smoothedRef tr) +
                 (rawTensionOf hands - s_tension (smoothedRef tr)) * smoothingSpeed \<and>
              rotation sig = s_rotation (smoothedRef tr) +
                 (rawRotationOf hands (prevFrameRef tr) - s_rotation (smoothedRef tr)) * (smoothingSpeed * 0.5) \<and>
              twist sig = s_twist (smoothedRef tr) +
                 (rawTwistOf hands (prevFrameRef tr) - s_twist (smoothedRef tr)) * (smoothingSpeed * 0.3) \<and>
              (0 < (t1 - p_timestamp (prevFrameRef tr)) / 1000 \<and>
               (t1 - p_timestamp (prevFrameRef tr)) / 1000 < 0.5 \<longrightarrow>
                 (\<exists>raw\<ge>0. velocity sig = s_velocity (smoothedRef tr) +
                    (min 1 (raw * 2) - s_velocity (smoothedRef tr)) * 0.3))"
  proof (intro allI impI)
    fix hands t1 tr1 sig
    assume h: "hands \<noteq> [] \<and> processResults (Some hands) t1 tr = (tr1, Some sig)"
    then have call: "processResults (Some hands) t1 tr = (tr1, Some sig)" and ne: "hands \<noteq> []"
      by simp_all
    from processResults_emits_present[OF call ne]
    have tr1: "tr1 = fst (processPresent hands t1 tr)" by simp
    note e = emitted_is_smoothed[OF call]
    note f = processPresent_fields[of hands t1 tr]
    have ts: "p_timestamp (storeHandY hands (prevFrameRef tr)) = p_timestamp (prevFrameRef tr)"
      using storeHandY_keeps by blast
    have v: "velocity sig = velocityStep hands t1 (storeHandY hands (prevFrameRef tr)) (s_velocity (smoothedRef tr))"
      using e unfolding tr1 processPresent_velocity by simp
    have vel: "0 < (t1 - p_timestamp (prevFrameRef tr)) / 1000 \<and>
               (t1 - p_timestamp (prevFrameRef tr)) / 1000 < 0.5 \<longrightarrow>
                 (\<exists>raw\<ge>0. velocity sig = s_velocity (smoothedRef tr) +
                    (min 1 (raw * 2) - s_velocity (smoothedRef tr)) * 0.3)"
      unfolding v using velocity_active_rate[of t1 "storeHandY hands (prevFrameRef tr)" hands
          "s_velocity (smoothedRef tr)"] unfolding ts by blast
    show "expansion sig = s_expansion (smoothedRef tr) +
                 (rawExpansionOf hands - s_expansion (smoothedRef tr)) * smoothingSpeed \<and>
              tension sig = s_tension (smoothedRef tr) +
                 (rawTensionOf hands - s_tension (smoothedRef tr)) * smoothingSpeed \<and>
              rotation sig = s_rotation (smoothedRef tr) +
                 (rawRotationOf hands (prevFrameRef tr) - s_rotation (smoothedRef tr)) * (smoothingSpeed * 0.5) \<and>
              twist sig = s_twist (smoothedRef tr) +
                 (rawTwistOf hands (prevFrameRef tr) - s_twist (smoothedRef tr)) * (smoothingSpeed * 0.3) \<and>
              (0 < (t1 - p_timestamp (prevFrameRef tr)) / 1000 \<and>
               (t1 - p_timestamp (prevFrameRef tr)) / 1000 < 0.5 \<longrightarrow>
                 (\<exists>raw\<ge>0. velocity sig = s_velocity (smoothedRef tr) +
                    (min 1 (raw * 2) - s_velocity (smoothedRef tr)) * 0.3))"
      using e f vel unfolding tr1 by simp
  qed
  have rates: "0.05 < smoothingSpeed" "0.05 < smoothingSpeed * 0.5" "smoothingSpeed * 0.3 < 0.05"
    "(0.1 :: real) < 0.3"
    by (simp_all add: smoothingSpeed_def)
  show ?thesis
    using p flags vals succ act rates by blast
qed

theorem absent_hand_decay_witness:
  "\<exists>tr' b. processResults (Some []) 1032 (fst (processResults None 1016 demoTracker)) = (tr', Some b) \<and>
      \<not> isPresent b \<and> \<not> grabbing b \<and>
      expansion b = 0.861 \<and> tension b = 0.722 \<and> rotation b = - 0.361 \<and> twist b = 0.5415 \<and>
      velocity b = 0.81 \<and>
      approaches 0.5 0.88 (expansion b) \<and> approaches 0 0.76 (tension b) \<and>
      approaches 0 (- 0.38) (rotation b) \<and> approaches 0 0.57 (twist b) \<and>
      approaches 0 0.9 (velocity b)"
proof -
  define a where "a = emit (decayAbsent (smoothedRef demoTracker)) False False"
  define tr where "tr = fst (processResults None 1016 demoTracker)"
  have prev: "processResults None 1016 demoTracker = (tr, Some a)"
    by (simp add: processResults_def processAbsent_def Let_def a_def tr_def)
  have st: "s_expansion (smoothedRef tr) = 0.88" "s_tension (smoothedRef tr) = 0.76"
    "s_rotation (smoothedRef tr) = - 0.38" "s_twist (smoothedRef tr) = 0.57"
    "s_velocity (smoothedRef tr) = 0.9"
    by (simp_all add: tr_def processResults_def processAbsent_def Let_def decayAbsent_def
        demoTracker_def lerp_def)
  have vals: "expansion a = 0.88" "tension a = 0.76" "rotation a = - 0.38" "twist a = 0.57"
    "velocity a = 0.9"
    by (simp_all add: a_def emit_def decayAbsent_def demoTracker_def lerp_def)
  have ab: "Some [] = None \<or> Some [] = Some ([] :: Landmark list list)" by simp
  from absent_hand_decay [OF ab, of 1032 tr] obtain tr' b where
    c: "processResults (Some []) 1032 tr = (tr', Some b)" "\<not> isPresent b" "\<not> grabbing b"
       "expansion b - 0.5 = (1 - 0.05) * (s_expansion (smoothedRef tr) - 0.5)"
       "tension b = (1 - 0.05) * s_tension (smoothedRef tr)"
       "rotation b = (1 - 0.05) * s_rotation (smoothedRef tr)"
       "twist b = (1 - 0.05) * s_twist (smoothedRef tr)"
       "velocity b = (1 - 0.1) * s_velocity (smoothedRef tr)"
    and succ: "\<forall>l0 t0 tr0 a. processResults l0 t0 tr0 = (tr, Some a) \<longrightarrow>
              approaches 0.5 (expansion a) (expansion b) \<and> approaches 0 (tension a) (tension b) \<and>
              approaches 0 (rotation a) (rotation b) \<and> approaches 0 (twist a) (twist b) \<and>
              approaches 0 (velocity a) (velocity b)"
    by blast
  from succ prev have ap: "approaches 0.5 0.88 (expansion b) \<and> approaches 0 0.76 (tension b) \<and>
              approaches 0 (- 0.38) (rotation b) \<and> approaches 0 0.57 (twist b) \<and>
              approaches 0 0.9 (velocity b)"
    unfolding vals[symmetric] by blast
  have v: "expansion b = 0.861" "tension b = 0.722" "rotation b = - 0.361" "twist b = 0.5415"
    "velocity b = 0.81"
    using c(4-8) unfolding st by simp_all
  show ?thesis
    using c(1,2,3) ap v unfolding tr_def by blast
qed

lemma two_hand_first_frame:
  "feed [(Some [handAt 1 0, handAt 0 0], 1000)] initTracker =
     fst (processPresent [handAt 1 0, handAt 0 0] 1000 initTracker)"
  by (simp add: processResults_present[OF _ handAt_complete(2)])

lemma two_hand_first_twist:
  "s_twist (smoothedRef (fst (processPresent [handAt 1 0, handAt 0 0] 1000 initTracker))) = 0.045"
proof -
  have "rawTwistOf [handAt 1 0, handAt 0 0] (prevFrameRef initTracker) = 1"
    by (simp add: rawTwistOf_def Let_def handAt_wrist initTracker_def)
  then show ?thesis
    using processPresent_fields[of "[handAt 1 0, handAt 0 0]" 1000 initTracker]
    by (simp add: initTracker_def smoothingSpeed_def)
qed

text \<open>
  After a first frame with two hands the smoothed twist is 0.045. A frame without hands
  then emits the twist 0.04275; a frame with one hand, whose raw twist is 0 as well, emits
  0.042975: the twist falls faster without hands than with them.
\<close>

theorem twist_decay_counterexample:
  "twist (the (snd (processResults None 1016
       (feed [(Some [handAt 1 0, handAt 0 0], 1000)] initTracker)))) = 0.04275
   \<and> twist (the (snd (processResults (Some [handAt 0.5 0.5]) 1016
       (feed [(Some [handAt 1 0, handAt 0 0], 1000)] initTracker)))) = 0.042975"
proof -
  define tr where "tr = fst (processPresent [handAt 1 0, handAt 0 0] 1000 initTracker)"
  have tw: "s_twist (smoothedRef tr) = 0.045" unfolding tr_def by (rule two_hand_first_twist)
  have a: "twist (the (snd (processResults None 1016 tr))) = 0.04275"
    using tw by (simp add: processResults_def processAbsent_def Let_def emit_def decayAbsent_def lerp_def)
  have "rawTwistOf [handAt 0.5 0.5] (prevFrameRef tr) = 0" by (simp add: rawTwistOf_def)
  then have b: "twist (the (snd (processResults (Some [handAt 0.5 0.5]) 1016 tr))) = 0.042975"
    using tw processPresent_fields[of "[handAt 0.5 0.5]" 1016 tr]
    by (simp add: processResults_present[OF _ handAt_complete(1)] emit_def smoothingSpeed_def)
  show ?thesis unfolding two_hand_first_frame tr_def[symmetric] using a b by simp
qed

section \<open>Properties of the engine\<close>

subsection \<open>The particle loop\<close>

lemma maxAggregate_0: "maxAggregate 0 vels = 0"
  by (simp add: maxAggregate_def)

lemma maxAggregate_Suc: "maxAggregate (Suc k) vels = max (maxAggregate k vels) (aggregate vels k)"
  by (simp add: maxAggregate_def Let_def max_def)

lemma updateParticle_eq:
  "updateParticle a g t r tg i (P, V, M) =
     (P[i * 3 := coordAfter a g t r tg P V (i * 3),
        i * 3 + 1 := coordAfter a g t r tg P V (i * 3 + 1),
        i * 3 + 2 := coordAfter a g t r tg P V (i * 3 + 2)],
      if a then V[i * 3 := V ! (i * 3) * explosionDecay,
                  i * 3 + 1 := V ! (i * 3 + 1) * explosionDecay,
                  i * 3 + 2 := V ! (i * 3 + 2) * explosionDecay] else V,
      if a then max M (\<bar>V ! (i * 3) * explosionDecay\<bar> + \<bar>V ! (i * 3 + 1) * explosionDecay\<bar>
                       + \<bar>V ! (i * 3 + 2) * explosionDecay\<bar>) else M)"
  by (simp add: updateParticle_def coordAfter_def Let_def max_def)

lemma particleLoop_0: "particleLoop 0 a g t r tg s = s"
  by (simp add: particleLoop_def)

lemma particleLoop_Suc:
  "particleLoop (Suc k) a g t r tg s = updateParticle a g t r tg k (particleLoop k a g t r tg s)"
  by (simp add: particleLoop_def)

lemma three_cases: "j < Suc k * 3 \<longleftrightarrow> j < k * 3 \<or> j = k * 3 \<or> j = k * 3 + 1 \<or> j = k * 3 + 2"
  by arith

lemma update3_nth:
  assumes "i + 2 < length xs"
  shows "xs[i := a, i + 1 := b, i + 2 := c] ! j =
           (if j = i then a else if j = i + 1 then b else if j = i + 2 then c else xs ! j)"
  using assms by (auto simp: nth_list_update)

lemma particleLoop_inv:
  assumes "k * 3 \<le> length pos" "length vels = length pos"
  shows "\<exists>P V M. particleLoop k a g t r tg (pos, vels, 0) = (P, V, M) \<and>
           length P = length pos \<and> length V = length pos \<and>
           (\<forall>j<length pos. P ! j = (if j < k * 3 then coordAfter a g t r tg pos vels j else pos ! j)) \<and>
           (\<forall>j<length pos. V ! j = (if a \<and> j < k * 3 then vels ! j * explosionDecay else vels ! j)) \<and>
           M = (if a then maxAggregate k (map (\<lambda>v. v * explosionDecay) vels) else 0)"
  using assms
proof (induction k)
  case 0
  then show ?case by (simp add: particleLoop_0 maxAggregate_0)
next
  case (Suc k)
  then obtain P V M where ih: "particleLoop k a g t r tg (pos, vels, 0) = (P, V, M)"
      "length P = length pos" "length V = length pos"
      "\<forall>j<length pos. P ! j = (if j < k * 3 then coordAfter a g t r tg pos vels j else pos ! j)"
      "\<forall>j<length pos. V ! j = (if a \<and> j < k * 3 then vels ! j * explosionDecay else vels ! j)"
      "M = (if a then maxAggregate k (map (\<lambda>v. v * explosionDecay) vels) else 0)"
    by auto
  have len: "k * 3 + 2 < length pos" using Suc.prems by simp
  have P0: "P ! (k * 3) = pos ! (k * 3)" "P ! (k * 3 + 1) = pos ! (k * 3 + 1)"
           "P ! (k * 3 + 2) = pos ! (k * 3 + 2)"
    using ih(4) len by simp_all
  have V0: "V ! (k * 3) = vels ! (k * 3)" "V ! (k * 3 + 1) = vels ! (k * 3 + 1)"
           "V ! (k * 3 + 2) = vels ! (k * 3 + 2)"
    using ih(5) len by simp_all
  have c: "coordAfter a g t r tg P V (k * 3) = coordAfter a g t r tg pos vels (k * 3)"
          "coordAfter a g t r tg P V (k * 3 + 1) = coordAfter a g t r tg pos vels (k * 3 + 1)"
          "coordAfter a g t r tg P V (k * 3 + 2) = coordAfter a g t r tg pos vels (k * 3 + 2)"
    by (simp_all only: coordAfter_def P0 V0)
  have agg: "\<bar>vels ! (k * 3) * explosionDecay\<bar> + \<bar>vels ! (k * 3 + 1) * explosionDecay\<bar>
             + \<bar>vels ! (k * 3 + 2) * explosionDecay\<bar>
             = aggregate (map (\<lambda>v. v * explosionDecay) vels) k"
    using len Suc.prems(2) by (simp add: aggregate_def)
  let ?P = "P[k * 3 := coordAfter a g t r tg pos vels (k * 3),
              k * 3 + 1 := coordAfter a g t r tg pos vels (k * 3 + 1),
              k * 3 + 2 := coordAfter a g t r tg pos vels (k * 3 + 2)]"
  let ?V = "if a then V[k * 3 := vels ! (k * 3) * explosionDecay,
                        k * 3 + 1 := vels ! (k * 3 + 1) * explosionDecay,
                        k * 3 + 2 := vels ! (k * 3 + 2) * explosionDecay] else V"
  let ?M = "if a then max M (aggregate (map (\<lambda>v. v * explosionDecay) vels) k) else M"
  have step: "particleLoop (Suc k) a g t r tg (pos, vels, 0) = (?P, ?V, ?M)"
    unfolding particleLoop_Suc ih(1) updateParticle_eq c V0 agg by (rule refl)
  have lP: "length ?P = length pos" using ih(2) by simp
  have lV: "length ?V = length pos" using ih(3) by simp
  have nP: "\<forall>j<length pos. ?P ! j = (if j < Suc k * 3 then coordAfter a g t r tg pos vels j else pos ! j)"
  proof (intro allI impI)
    fix j assume j: "j < length pos"
    have "k * 3 + 2 < length P" using len ih(2) by simp
    from update3_nth[OF this] ih(4) j
    show "?P ! j = (if j < Suc k * 3 then coordAfter a g t r tg pos vels j else pos ! j)"
      unfolding three_cases by auto
  qed
  have nV: "\<forall>j<length pos. ?V ! j = (if a \<and> j < Suc k * 3 then vels ! j * explosionDecay else vels ! j)"
  proof (intro allI impI)
    fix j assume j: "j < length pos"
    have "k * 3 + 2 < length V" using len ih(3) by simp
    from update3_nth[OF this] ih(5) j
    show "?V ! j = (if a \<and> j < Suc k * 3 then vels ! j * explosionDecay else vels ! j)"
      unfolding three_cases by auto
  qed
  have mM: "?M = (if a then maxAggregate (Suc k) (map (\<lambda>v. v * explosionDecay) vels) else 0)"
    using ih(6) by (simp add: maxAggregate_Suc)
  show ?case using step lP lV nP nV mM by blast
qed

lemma animate_loop:
  assumes "particleLoop n (explosionActive st) (grabbing (hand st)) (effectiveTension (hand st)) rnd
             (targets st) (positions st, explosionVelocities st, 0) = (P, V, M)"
  shows "positions (animate n rnd st) = P \<and> explosionVelocities (animate n rnd st) = V \<and>
         explosionActive (animate n rnd st) = (explosionActive st \<and> \<not> M < 0.008) \<and>
         targets (animate n rnd st) = targets st \<and> hand (animate n rnd st) = hand st \<and>
         pointsRef (animate n rnd st) = pointsRef st"
  using assms by (auto simp add: animate_def Let_def effectiveTension_def)

lemma animate_effect:
  assumes lp: "length (positions st) = n * 3" and lv: "length (explosionVelocities st) = n * 3"
  shows "length (positions (animate n rnd st)) = n * 3 \<and>
         (\<forall>j<n * 3. positions (animate n rnd st) ! j =
            coordAfter (explosionActive st) (grabbing (hand st)) (effectiveTension (hand st)) rnd
              (targets st) (positions st) (explosionVelocities st) j) \<and>
         explosionVelocities (animate n rnd st) =
            (if explosionActive st then map (\<lambda>v. v * explosionDecay) (explosionVelocities st)
             else explosionVelocities st) \<and>
         explosionActive (animate n rnd st) =
            (explosionActive st \<and>
             \<not> maxAggregate n (map (\<lambda>v. v * explosionDecay) (explosionVelocities st)) < 0.008) \<and>
         targets (animate n rnd st) = targets st \<and> hand (animate n rnd st) = hand st \<and>
         pointsRef (animate n rnd st) = pointsRef st"
proof -
  let ?a = "explosionActive st" and ?pos = "positions st" and ?vels = "explosionVelocities st"
  from particleLoop_inv[of n ?pos ?vels ?a "grabbing (hand st)" "effectiveTension (hand st)" rnd "targets st"]
  obtain P V M where loop: "particleLoop n ?a (grabbing (hand st)) (effectiveTension (hand st)) rnd
             (targets st) (?pos, ?vels, 0) = (P, V, M)"
    and lP: "length P = length ?pos" and lV: "length V = length ?pos"
    and nP: "\<forall>j<length ?pos. P ! j = (if j < n * 3 then coordAfter ?a (grabbing (hand st))
                 (effectiveTension (hand st)) rnd (targets st) ?pos ?vels j else ?pos ! j)"
    and nV: "\<forall>j<length ?pos. V ! j = (if ?a \<and> j < n * 3 then ?vels ! j * explosionDecay else ?vels ! j)"
    and mM: "M = (if ?a then maxAggregate n (map (\<lambda>v. v * explosionDecay) ?vels) else 0)"
    using lp lv by auto
  note an = animate_loop[OF loop]
  have V: "V = (if ?a then map (\<lambda>v. v * explosionDecay) ?vels else ?vels)"
    by (rule nth_equalityI) (use lV lv lp nV in auto)
  have act: "(?a \<and> \<not> M < 0.008) =
             (?a \<and> \<not> maxAggregate n (map (\<lambda>v. v * explosionDecay) ?vels) < 0.008)"
    using mM by auto
  show ?thesis
    using an lP lp nP V act by auto
qed

lemma aggregate_nonneg: "0 \<le> aggregate vels i"
  by (simp add: aggregate_def)

lemma maxAggregate_nonneg: "0 \<le> maxAggregate k vels"
  by (induction k) (simp_all add: maxAggregate_0 maxAggregate_Suc max_def)

lemma maxAggregate_less_iff:
  assumes "0 < b"
  shows "maxAggregate k vels < b \<longleftrightarrow> (\<forall>i<k. aggregate vels i < b)"
  using assms by (induction k) (auto simp: maxAggregate_0 maxAggregate_Suc less_Suc_eq)

lemma aggregate_scale:
  assumes "0 \<le> c" "i * 3 + 2 < length vels"
  shows "aggregate (map (\<lambda>v. v * c) vels) i = c * aggregate vels i"
  using assms by (simp add: aggregate_def abs_mult algebra_simps)

lemma maxAggregate_scale:
  assumes "0 \<le> c" "k * 3 \<le> length vels"
  shows "maxAggregate k (map (\<lambda>v. v * c) vels) = c * maxAggregate k vels"
  using assms
proof (induction k)
  case 0
  then show ?case by (simp add: maxAggregate_0)
next
  case (Suc k)
  have "aggregate (map (\<lambda>v. v * c) vels) k = c * aggregate vels k"
    using Suc.prems by (intro aggregate_scale) auto
  moreover have "maxAggregate k (map (\<lambda>v. v * c) vels) = c * maxAggregate k vels"
    using Suc by simp
  ultimately show ?case
    using Suc.prems(1) by (simp add: maxAggregate_Suc max_mult_distrib_left)
qed

subsection \<open>The clap loop\<close>

lemma explodeParticle_eq:
  "explodeParticle rnd pos i V =
     V[i * 3 := pos ! (i * 3) / particleDist pos i * particleForce rnd i,
       i * 3 + 1 := pos ! (i * 3 + 1) / particleDist pos i * particleForce rnd i,
       i * 3 + 2 := pos ! (i * 3 + 2) / particleDist pos i * particleForce rnd i]"
  by (simp add: explodeParticle_def particleDist_def particleForce_def Let_def)

lemma div3: "(k * 3) div 3 = k" "(k * 3 + 1) div 3 = k" "(k * 3 + 2) div 3 = (k::nat)"
  by simp_all

lemma explode_loop:
  assumes "k * 3 \<le> length vels"
  shows "length (fold (explodeParticle rnd pos) [0..<k] vels) = length vels \<and>
         (\<forall>j<length vels. fold (explodeParticle rnd pos) [0..<k] vels ! j =
            (if j < k * 3
             then pos ! j / particleDist pos (j div 3) * particleForce rnd (j div 3)
             else vels ! j))"
  using assms
proof (induction k)
  case 0
  then show ?case by simp
next
  case (Suc k)
  let ?V = "fold (explodeParticle rnd pos) [0..<k] vels"
  have ih: "length ?V = length vels"
    "\<forall>j<length vels. ?V ! j = (if j < k * 3
             then pos ! j / particleDist pos (j div 3) * particleForce rnd (j div 3) else vels ! j)"
    using Suc by simp_all
  have len: "k * 3 + 2 < length ?V" using Suc.prems ih(1) by simp
  have "fold (explodeParticle rnd pos) [0..<Suc k] vels = explodeParticle rnd pos k ?V"
    by simp
  also have "\<dots> = ?V[k * 3 := pos ! (k * 3) / particleDist pos k * particleForce rnd k,
       k * 3 + 1 := pos ! (k * 3 + 1) / particleDist pos k * particleForce rnd k,
       k * 3 + 2 := pos ! (k * 3 + 2) / particleDist pos k * particleForce rnd k]"
    by (rule explodeParticle_eq)
  finally have step: "fold (explodeParticle rnd pos) [0..<Suc k] vels =
      ?V[k * 3 := pos ! (k * 3) / particleDist pos k * particleForce rnd k,
       k * 3 + 1 := pos ! (k * 3 + 1) / particleDist pos k * particleForce rnd k,
       k * 3 + 2 := pos ! (k * 3 + 2) / particleDist pos k * particleForce rnd k]" .
  show ?case
  proof (intro conjI allI impI)
    show "length (fold (explodeParticle rnd pos) [0..<Suc k] vels) = length vels"
      unfolding step using ih(1) by simp
  next
    fix j assume j: "j < length vels"
    show "fold (explodeParticle rnd pos) [0..<Suc k] vels ! j =
            (if j < Suc k * 3
             then pos ! j / particleDist pos (j div 3) * particleForce rnd (j div 3)
             else vels ! j)"
      unfolding step update3_nth[OF len] three_cases
      using ih(2) j div3[of k] by auto
  qed
qed

lemma handleHandUpdate_effect:
  "hand (handleHandUpdate n rnd data st) = data \<and>
   positions (handleHandUpdate n rnd data st) = positions st \<and>
   targets (handleHandUpdate n rnd data st) = targets st \<and>
   pointsRef (handleHandUpdate n rnd data st) = pointsRef st \<and>
   explosionActive (handleHandUpdate n rnd data st) =
     (explosionActive st \<or> (velocity data > 0.4 \<and> expansion data < 0.25 \<and> pointsRef st)) \<and>
   explosionVelocities (handleHandUpdate n rnd data st) =
     (if velocity data > 0.4 \<and> expansion data < 0.25 \<and> \<not> explosionActive st \<and> pointsRef st
      then fold (explodeParticle rnd (positions st)) [0..<n] (explosionVelocities st)
      else explosionVelocities st)"
  by (auto simp: handleHandUpdate_def clapCondition_def Let_def)

lemma norm3_zero_iff: "norm3 xs i = 0 \<longleftrightarrow> atOrigin xs i"
proof -
  have "xs ! (i * 3) * xs ! (i * 3) + xs ! (i * 3 + 1) * xs ! (i * 3 + 1)
          + xs ! (i * 3 + 2) * xs ! (i * 3 + 2) = 0 \<longleftrightarrow> atOrigin xs i"
    unfolding atOrigin_def
    by (metis add_nonneg_eq_0_iff add_nonneg_nonneg mult_eq_0_iff zero_le_square add.right_neutral mult_zero_left)
  moreover have "0 \<le> xs ! (i * 3) * xs ! (i * 3) + xs ! (i * 3 + 1) * xs ! (i * 3 + 1)
          + xs ! (i * 3 + 2) * xs ! (i * 3 + 2)"
    by (intro add_nonneg_nonneg zero_le_square)
  ultimately show ?thesis unfolding norm3_def by simp
qed

lemma particleDist_norm3: "particleDist pos i = (if atOrigin pos i then 1 else norm3 pos i)"
  using norm3_zero_iff[of pos i] by (simp add: particleDist_def norm3_def Let_def)

lemma particleForce_band:
  assumes "0 \<le> rnd i" "rnd i < 1"
  shows "1.4 \<le> particleForce rnd i \<and> particleForce rnd i < 2.6"
  using assms by (simp add: particleForce_def explosionForce_def)

lemma scaled_norm:
  fixes x y z d f :: real
  assumes d: "d = sqrt (x * x + y * y + z * z)" and d0: "d \<noteq> 0" and f: "0 \<le> f"
  shows "sqrt ((x / d * f) * (x / d * f) + (y / d * f) * (y / d * f) + (z / d * f) * (z / d * f)) = f"
proof -
  have nn: "0 \<le> x * x + y * y + z * z" by (intro add_nonneg_nonneg zero_le_square)
  have dd: "d * d = x * x + y * y + z * z"
    unfolding d using nn by (metis real_sqrt_mult_self abs_of_nonneg)
  have "(x / d * f) * (x / d * f) + (y / d * f) * (y / d * f) + (z / d * f) * (z / d * f)
          = (x * x + y * y + z * z) / (d * d) * (f * f)"
    using d0 by (simp add: field_simps)
  also have "\<dots> = (d * d) / (d * d) * (f * f)" unfolding dd by (rule refl)
  also have "\<dots> = f * f" using d0 by simp
  finally show ?thesis using f by (simp add: real_sqrt_mult_self)
qed

lemma exploded_particle:
  assumes lv: "length vels = n * 3" and i: "i < n" and r: "0 \<le> rnd i" "rnd i < 1"
  shows "if atOrigin pos i
         then zeroVelocity (fold (explodeParticle rnd pos) [0..<n] vels) i
         else radialImpulse pos (fold (explodeParticle rnd pos) [0..<n] vels) i (particleForce rnd i) \<and>
              norm3 (fold (explodeParticle rnd pos) [0..<n] vels) i = particleForce rnd i \<and>
              \<not> zeroVelocity (fold (explodeParticle rnd pos) [0..<n] vels) i"
proof -
  let ?V = "fold (explodeParticle rnd pos) [0..<n] vels"
  have j: "i * 3 < n * 3" "i * 3 + 1 < n * 3" "i * 3 + 2 < n * 3" using i by simp_all
  from explode_loop[of n vels rnd pos] lv
  have nth: "\<forall>j<n * 3. ?V ! j = pos ! j / particleDist pos (j div 3) * particleForce rnd (j div 3)"
    by simp
  have v: "?V ! (i * 3) = pos ! (i * 3) / particleDist pos i * particleForce rnd i"
          "?V ! (i * 3 + 1) = pos ! (i * 3 + 1) / particleDist pos i * particleForce rnd i"
          "?V ! (i * 3 + 2) = pos ! (i * 3 + 2) / particleDist pos i * particleForce rnd i"
    using nth j div3[of i] by (metis)+
  have f: "0 < particleForce rnd i" using particleForce_band[of rnd i] r by simp
  show ?thesis
  proof (cases "atOrigin pos i")
    case True
    then show ?thesis unfolding zeroVelocity_def v by (simp add: atOrigin_def)
  next
    case False
    then have d: "particleDist pos i = norm3 pos i" and d0: "norm3 pos i \<noteq> 0"
      using particleDist_norm3[of pos i] norm3_zero_iff[of pos i] by simp_all
    have rad: "radialImpulse pos ?V i (particleForce rnd i)"
      unfolding radialImpulse_def v d using d0 by simp
    have nrm: "norm3 ?V i = particleForce rnd i"
      unfolding norm3_def[of ?V] v d
      using scaled_norm[of "norm3 pos i" "pos ! (i * 3)" "pos ! (i * 3 + 1)" "pos ! (i * 3 + 2)"
          "particleForce rnd i"] d0 f
      by (simp add: norm3_def)
    have "\<not> zeroVelocity ?V i"
    proof
      assume "zeroVelocity ?V i"
      then have "atOrigin ?V i" by (simp add: zeroVelocity_def atOrigin_def)
      then have "norm3 ?V i = 0" using norm3_zero_iff by blast
      then show False using nrm f by simp
    qed
    then show ?thesis using False rad nrm by simp
  qed
qed

subsection \<open>Steps and histories\<close>

lemma step_lengths:
  assumes "length (positions st) = n * 3" "length (explosionVelocities st) = n * 3"
  shows "length (positions (step n ev st)) = n * 3 \<and> length (explosionVelocities (step n ev st)) = n * 3"
proof (cases ev)
  case (Tick rnd)
  from animate_effect[OF assms, of rnd] show ?thesis using Tick assms by auto
next
  case (HandUpdate rnd data)
  have "length (fold (explodeParticle rnd (positions st)) [0..<n] (explosionVelocities st)) = n * 3"
    using explode_loop[of n "explosionVelocities st" rnd "positions st"] assms by simp
  then show ?thesis using HandUpdate assms handleHandUpdate_effect[of n rnd data st] by auto
next
  case (ShapeChange cloud)
  then show ?thesis using assms by (simp add: changeShape_def)
qed

lemma step_inactive:
  assumes "\<not> explosionActive st" "\<not> triggering ev"
  shows "\<not> explosionActive (step n ev st) \<and> explosionVelocities (step n ev st) = explosionVelocities st"
proof (cases ev)
  case (Tick rnd)
  obtain P V M where loop: "particleLoop n (explosionActive st) (grabbing (hand st))
      (effectiveTension (hand st)) rnd (targets st) (positions st, explosionVelocities st, 0) = (P, V, M)"
    by (rule prod_cases3)
  have "V = explosionVelocities st"
  proof -
    have "\<And>k s. snd (particleLoop k False (grabbing (hand st)) (effectiveTension (hand st)) rnd (targets st) s)
             = snd s"
    proof -
      fix k s show "snd (particleLoop k False (grabbing (hand st)) (effectiveTension (hand st)) rnd (targets st) s) = snd s"
        by (induction k) (auto simp: particleLoop_0 particleLoop_Suc updateParticle_def Let_def split: prod.splits)
    qed
    from this[of n "(positions st, explosionVelocities st, 0)"] loop assms(1) show ?thesis by simp
  qed
  then show ?thesis using animate_loop[OF loop] assms Tick by simp
next
  case (HandUpdate rnd data)
  then show ?thesis using assms handleHandUpdate_effect[of n rnd data st] by auto
next
  case (ShapeChange cloud)
  then show ?thesis using assms by (simp add: changeShape_def)
qed

lemma run_Cons: "run n (ev # evs) st = run n evs (step n ev st)"
  by (simp add: run_def)

lemma run_Nil: "run n [] st = st"
  by (simp add: run_def)

lemma run_append: "run n (evs @ evs') st = run n evs' (run n evs st)"
  by (simp add: run_def)

lemma run_inactive:
  assumes "\<not> explosionActive st" "\<forall>ev\<in>set evs. \<not> triggering ev"
  shows "\<not> explosionActive (run n evs st) \<and> explosionVelocities (run n evs st) = explosionVelocities st"
  using assms
proof (induction evs arbitrary: st)
  case Nil
  then show ?case by (simp add: run_Nil)
next
  case (Cons ev evs)
  have s: "\<not> explosionActive (step n ev st) \<and> explosionVelocities (step n ev st) = explosionVelocities st"
    using step_inactive[of st ev n] Cons.prems by simp
  from Cons.IH[of "step n ev st"] s Cons.prems(2)
  show ?case by (simp add: run_Cons)
qed

lemma tickCount_simps:
  "tickCount [] = 0" "tickCount (Tick rnd # evs) = Suc (tickCount evs)"
  "tickCount (HandUpdate rnd data # evs) = tickCount evs"
  "tickCount (ShapeChange cloud # evs) = tickCount evs"
  by (simp_all add: tickCount_def)

lemma decay_unit: "0 \<le> explosionDecay \<and> explosionDecay < 1 \<and> 0 < explosionDecay"
  by (simp add: explosionDecay_def)

lemma run_active:
  assumes "explosionActive st" "length (positions st) = n * 3" "length (explosionVelocities st) = n * 3"
      and "\<forall>ev\<in>set evs. \<not> triggering ev"
  shows "explosionActive (run n evs st) \<longleftrightarrow>
           tickCount evs = 0 \<or>
           0.008 \<le> explosionDecay ^ tickCount evs * maxAggregate n (explosionVelocities st)"
  using assms
proof (induction evs arbitrary: st)
  case Nil
  then show ?case by (simp add: run_Nil tickCount_simps)
next
  case (Cons ev evs)
  note len = step_lengths[OF Cons.prems(2,3), of ev]
  have nt: "\<forall>ev\<in>set evs. \<not> triggering ev" using Cons.prems(4) by simp
  show ?case
  proof (cases ev)
    case (Tick rnd)
    let ?M = "maxAggregate n (explosionVelocities st)"
    note eff = animate_effect[OF Cons.prems(2,3), of rnd]
    have v: "explosionVelocities (step n ev st) = map (\<lambda>v. v * explosionDecay) (explosionVelocities st)"
      using eff Tick Cons.prems(1) by simp
    have M1: "maxAggregate n (explosionVelocities (step n ev st)) = explosionDecay * ?M"
      unfolding v using maxAggregate_scale[of explosionDecay n "explosionVelocities st"]
        decay_unit Cons.prems(3) by simp
    have a1: "explosionActive (step n ev st) \<longleftrightarrow> 0.008 \<le> explosionDecay * ?M"
      using eff Tick Cons.prems(1) M1 v by auto
    have tc: "tickCount (ev # evs) = Suc (tickCount evs)" by (simp add: Tick tickCount_simps)
    show ?thesis
    proof (cases "explosionActive (step n ev st)")
      case True
      have "explosionActive (run n (ev # evs) st) \<longleftrightarrow>
              tickCount evs = 0 \<or> 0.008 \<le> explosionDecay ^ tickCount evs * (explosionDecay * ?M)"
        using Cons.IH[OF True conjunct1[OF len] conjunct2[OF len] nt]
        unfolding M1 by (simp add: run_Cons)
      also have "\<dots> \<longleftrightarrow> 0.008 \<le> explosionDecay ^ Suc (tickCount evs) * ?M"
        using True a1 by (cases "tickCount evs = 0") (simp_all add: mult.assoc mult.left_commute)
      finally show ?thesis unfolding tc by simp
    next
      case False
      have "\<not> explosionActive (run n (ev # evs) st)"
        using run_inactive[OF False nt] by (simp add: run_Cons)
      moreover have "explosionDecay ^ tickCount (ev # evs) * ?M < 0.008"
      proof -
        define x where "x = explosionDecay * ?M"
        define p where "p = explosionDecay ^ tickCount evs"
        have p1: "p \<le> 1"
          unfolding p_def using decay_unit by (intro power_le_one) auto
        have x0: "0 \<le> x"
          unfolding x_def using decay_unit maxAggregate_nonneg[of n "explosionVelocities st"] by simp
        have "p * x \<le> 1 * x" using p1 x0 by (rule mult_right_mono)
        moreover have "x < 0.008" unfolding x_def using False a1 by simp
        ultimately have "p * x < 0.008" by simp
        moreover have "explosionDecay ^ tickCount (ev # evs) * ?M = p * x"
          unfolding tc p_def x_def by simp
        ultimately show ?thesis by simp
      qed
      ultimately show ?thesis unfolding tc by simp
    qed
  next
    case (HandUpdate rnd data)
    have "explosionActive (step n ev st) \<and> explosionVelocities (step n ev st) = explosionVelocities st"
      using HandUpdate handleHandUpdate_effect[of n rnd data st] Cons.prems(1) by simp
    with Cons.IH[OF _ conjunct1[OF len] conjunct2[OF len] nt]
    show ?thesis by (simp add: run_Cons HandUpdate tickCount_simps)
  next
    case (ShapeChange cloud)
    have "explosionActive (step n ev st) \<and> explosionVelocities (step n ev st) = explosionVelocities st"
      using ShapeChange Cons.prems(1) by (simp add: changeShape_def)
    with Cons.IH[OF _ conjunct1[OF len] conjunct2[OF len] nt]
    show ?thesis by (simp add: run_Cons ShapeChange tickCount_simps)
  qed
qed

lemma step_keeps_nonzero:
  assumes "length (positions st) = n * 3" "length (explosionVelocities st) = n * 3"
      and "\<not> triggering ev" "j < n * 3" "explosionVelocities st ! j \<noteq> 0"
  shows "explosionVelocities (step n ev st) ! j \<noteq> 0"
proof (cases ev)
  case (Tick rnd)
  note eff = animate_effect[OF assms(1,2), of rnd]
  show ?thesis using eff Tick assms(2,4,5) decay_unit by (cases "explosionActive st") auto
next
  case (HandUpdate rnd data)
  then show ?thesis using assms handleHandUpdate_effect[of n rnd data st] by auto
next
  case (ShapeChange cloud)
  then show ?thesis using assms by (simp add: changeShape_def)
qed

lemma run_keeps_nonzero:
  assumes "length (positions st) = n * 3" "length (explosionVelocities st) = n * 3"
      and "\<forall>ev\<in>set evs. \<not> triggering ev" "j < n * 3" "explosionVelocities st ! j \<noteq> 0"
  shows "explosionVelocities (run n evs st) ! j \<noteq> 0"
  using assms
proof (induction evs arbitrary: st)
  case Nil
  then show ?case by (simp add: run_Nil)
next
  case (Cons ev evs)
  note len = step_lengths[OF Cons.prems(1,2), of ev]
  have nz: "explosionVelocities (step n ev st) ! j \<noteq> 0"
    using step_keeps_nonzero[OF Cons.prems(1,2) _ Cons.prems(4,5), of ev] Cons.prems(3) by simp
  from Cons.IH[OF conjunct1[OF len] conjunct2[OF len] _ Cons.prems(4) nz] Cons.prems(3)
  show ?case by (simp add: run_Cons)
qed

subsection \<open>The sample states\<close>

lemma upt_one: "[0..<1] = [0]"
  by (simp add: upt_rec)

lemma replicate_three: "replicate 3 v = [v, v, v]"
  by (simp add: numeral_3_eq_3)

lemma explodedOne_state:
  "explosionActive explodedOne \<and> explosionVelocities explodedOne = [2, 0, 0] \<and>
   positions explodedOne = [1, 0, 0]"
  by (simp add: explodedOne_def handleHandUpdate_def clapCondition_def Let_def initEngine_def
      clapSignal_def halfRnd_def explodeParticle_def explosionForce_def upt_one replicate_three)

lemma maxAggregate_explodedOne: "maxAggregate 1 [2, 0, 0] = 2"
  by (simp add: maxAggregate_def aggregate_def upt_one)

lemma tickCount_replicate: "tickCount (replicate k (Tick rnd)) = k"
  by (induction k) (simp_all add: tickCount_simps)

lemma replicate_not_triggering: "\<forall>ev\<in>set (replicate k (Tick rnd)). \<not> triggering ev"
  by auto

lemma decay_66: "0.008 \<le> explosionDecay ^ 66 * 2"
  by (simp add: explosionDecay_def power_divide)

lemma decay_67: "explosionDecay ^ 67 * 2 < 0.008"
  by (simp add: explosionDecay_def power_divide)

lemma ended_after_67: "\<not> explosionActive (run 1 (replicate 67 (Tick halfRnd)) explodedOne)"
proof -
  have h: "explosionActive explodedOne" "length (positions explodedOne) = 1 * 3"
    "length (explosionVelocities explodedOne) = 1 * 3"
    using explodedOne_state by simp_all
  have m: "maxAggregate 1 (explosionVelocities explodedOne) = 2"
    using explodedOne_state maxAggregate_explodedOne by simp
  show ?thesis
    using run_active[OF h replicate_not_triggering[of 67 halfRnd]] decay_67
    unfolding m tickCount_replicate by simp
qed

lemma clap_then_ticks:
  "run 1 (HandUpdate halfRnd clapSignal # replicate k (Tick halfRnd)) (initEngine 1 [1, 0, 0] [1, 0, 0])
     = run 1 (replicate k (Tick halfRnd)) explodedOne"
  by (simp add: run_Cons explodedOne_def)

subsection \<open>Clap trigger\<close>

text \<open>
  C1, as amended. With the points object mounted, buffers of \<open>n * 3\<close> cells and random
  values in \<open>[0,1)\<close>: if the signal has velocity above 0.4 and expansion below 0.25 and no
  explosion is active, the update sets \<open>explosionActive\<close> and gives every particle that is
  not exactly at the origin the velocity \<open>force\<close> times the unit vector from the origin to
  its position, with \<open>force\<close> in \<open>[1.4, 2.6)\<close>, hence a non-zero velocity of Euclidean
  length \<open>force\<close>; a particle exactly at the origin gets the zero velocity. In every other
  case, in particular while an explosion is active, the flag and the velocities are left
  as they were. The positions are never changed and the signal is stored.
\<close>

theorem clap_trigger:
  assumes lp: "length (positions st) = n * 3"
      and lv: "length (explosionVelocities st) = n * 3" and mounted: "pointsRef st"
      and rnd: "\<forall>i<n. 0 \<le> rnd i \<and> rnd i < 1"
  shows "(velocity data > 0.4 \<and> expansion data < 0.25 \<and> \<not> explosionActive st \<longrightarrow>
            explosionActive (handleHandUpdate n rnd data st) \<and>
            (\<forall>i<n. 1.4 \<le> particleForce rnd i \<and> particleForce rnd i < 2.6 \<and>
               (if atOrigin (positions st) i
                then zeroVelocity (explosionVelocities (handleHandUpdate n rnd data st)) i
                else radialImpulse (positions st) (explosionVelocities (handleHandUpdate n rnd data st)) i
                       (particleForce rnd i) \<and>
                     norm3 (explosionVelocities (handleHandUpdate n rnd data st)) i = particleForce rnd i \<and>
                     \<not> zeroVelocity (explosionVelocities (handleHandUpdate n rnd data st)) i))) \<and>
         (\<not> (velocity data > 0.4 \<and> expansion data < 0.25 \<and> \<not> explosionActive st) \<longrightarrow>
            explosionActive (handleHandUpdate n rnd data st) = explosionActive st \<and>
            explosionVelocities (handleHandUpdate n rnd data st) = explosionVelocities st) \<and>
         positions (handleHandUpdate n rnd data st) = positions st \<and>
         hand (handleHandUpdate n rnd data st) = data"
proof -
  note eff = handleHandUpdate_effect[of n rnd data st]
  have fire: "velocity data > 0.4 \<and> expansion data < 0.25 \<and> \<not> explosionActive st \<Longrightarrow>
      explosionVelocities (handleHandUpdate n rnd data st) =
        fold (explodeParticle rnd (positions st)) [0..<n] (explosionVelocities st)"
    using eff mounted by simp
  have a: "velocity data > 0.4 \<and> expansion data < 0.25 \<and> \<not> explosionActive st \<longrightarrow>
            explosionActive (handleHandUpdate n rnd data st) \<and>
            (\<forall>i<n. 1.4 \<le> particleForce rnd i \<and> particleForce rnd i < 2.6 \<and>
               (if atOrigin (positions st) i
                then zeroVelocity (explosionVelocities (handleHandUpdate n rnd data st)) i
                else radialImpulse (positions st) (explosionVelocities (handleHandUpdate n rnd data st)) i
                       (particleForce rnd i) \<and>
                     norm3 (explosionVelocities (handleHandUpdate n rnd data st)) i = particleForce rnd i \<and>
                     \<not> zeroVelocity (explosionVelocities (handleHandUpdate n rnd data st)) i))"
  proof (intro impI conjI allI)
    assume c: "velocity data > 0.4 \<and> expansion data < 0.25 \<and> \<not> explosionActive st"
    show "explosionActive (handleHandUpdate n rnd data st)" using eff c mounted by simp
  next
    fix i assume c: "velocity data > 0.4 \<and> expansion data < 0.25 \<and> \<not> explosionActive st"
      and i: "i < n"
    have r: "0 \<le> rnd i" "rnd i < 1" using rnd i by simp_all
    show "1.4 \<le> particleForce rnd i" "particleForce rnd i < 2.6"
      using particleForce_band[of rnd i] r by simp_all
    show "if atOrigin (positions st) i
                then zeroVelocity (explosionVelocities (handleHandUpdate n rnd data st)) i
                else radialImpulse (positions st) (explosionVelocities (handleHandUpdate n rnd data st)) i
                       (particleForce rnd i) \<and>
                     norm3 (explosionVelocities (handleHandUpdate n rnd data st)) i = particleForce rnd i \<and>
                     \<not> zeroVelocity (explosionVelocities (handleHandUpdate n rnd data st)) i"
      unfolding fire[OF c]
      using exploded_particle[of "explosionVelocities st" n i rnd "positions st"] lv i r by blast
  qed
  have b: "\<not> (velocity data > 0.4 \<and> expansion data < 0.25 \<and> \<not> explosionActive st) \<longrightarrow>
            explosionActive (handleHandUpdate n rnd data st) = explosionActive st \<and>
            explosionVelocities (handleHandUpdate n rnd data st) = explosionVelocities st"
    using eff by auto
  show ?thesis using a b eff by blast
qed

theorem clap_trigger_witness:
  "explosionActive explodedOne \<and>
   radialImpulse [1, 0, 0] (explosionVelocities explodedOne) 0 (particleForce halfRnd 0) \<and>
   norm3 (explosionVelocities explodedOne) 0 = particleForce halfRnd 0 \<and>
   1.4 \<le> particleForce halfRnd 0 \<and> particleForce halfRnd 0 < 2.6"
proof -
  let ?s = "initEngine 1 [1, 0, 0] [1, 0, 0]"
  have h: "length (positions ?s) = 1 * 3" "length (explosionVelocities ?s) = 1 * 3" "pointsRef ?s"
    "\<forall>i<1. 0 \<le> halfRnd i \<and> halfRnd i < 1"
    by (simp_all add: initEngine_def halfRnd_def)
  have c: "velocity clapSignal > 0.4 \<and> expansion clapSignal < 0.25 \<and> \<not> explosionActive ?s"
    by (simp add: clapSignal_def initEngine_def)
  have o: "\<not> atOrigin (positions ?s) 0" "positions ?s = [1, 0, 0]"
    by (simp_all add: atOrigin_def initEngine_def)
  from clap_trigger [OF h, of clapSignal] c o show ?thesis
    unfolding explodedOne_def by auto
qed

text \<open>
  One particle exactly at the origin: the clap fires and leaves its velocity at zero.
\<close>

theorem origin_particle_counterexample:
  "explosionActive (handleHandUpdate 1 halfRnd clapSignal (initEngine 1 [0, 0, 0] [1, 0, 0])) \<and>
   explosionVelocities (handleHandUpdate 1 halfRnd clapSignal (initEngine 1 [0, 0, 0] [1, 0, 0]))
     = [0, 0, 0]"
  by (simp add: handleHandUpdate_def clapCondition_def Let_def initEngine_def
      clapSignal_def halfRnd_def explodeParticle_def explosionForce_def upt_one replicate_three)

subsection \<open>The explosion ends by itself\<close>

lemma decay_reaches:
  assumes "0 \<le> M"
  shows "\<exists>k>0. explosionDecay ^ k * M < 0.008"
proof (cases "M = 0")
  case True
  then show ?thesis by (intro exI[of _ 1]) simp
next
  case False
  then have pos: "0 < M" using assms by simp
  then have "0 < 0.008 / M" by simp
  from real_arch_pow_inv[OF this, of explosionDecay] decay_unit
  obtain k where k: "explosionDecay ^ k < 0.008 / M" by auto
  have "explosionDecay ^ Suc k \<le> explosionDecay ^ k"
    using decay_unit by (intro power_decreasing) auto
  then have "explosionDecay ^ Suc k < 0.008 / M" using k by simp
  then have "explosionDecay ^ Suc k * M < 0.008" using pos by (simp add: pos_less_divide_eq)
  then show ?thesis by (intro exI[of _ "Suc k"]) simp
qed

lemma decay_threshold:
  assumes "0 \<le> M"
  shows "\<exists>K>0. \<forall>k. (k = 0 \<or> 0.008 \<le> explosionDecay ^ k * M) \<longleftrightarrow> k < K"
proof -
  define Q where "Q k \<longleftrightarrow> 0 < k \<and> explosionDecay ^ k * M < 0.008" for k
  have ex: "\<exists>k. Q k" using decay_reaches[OF assms] unfolding Q_def by blast
  define K where "K = (LEAST k. Q k)"
  have QK: "Q K" unfolding K_def using ex by (metis LeastI)
  have least: "\<And>k. k < K \<Longrightarrow> \<not> Q k" unfolding K_def by (rule not_less_Least)
  have "\<forall>k. (k = 0 \<or> 0.008 \<le> explosionDecay ^ k * M) \<longleftrightarrow> k < K"
  proof (intro allI iffI)
    fix k assume a: "k = 0 \<or> 0.008 \<le> explosionDecay ^ k * M"
    show "k < K"
    proof (rule ccontr)
      assume "\<not> k < K"
      then have le: "K \<le> k" by simp
      then have k0: "k \<noteq> 0" using QK unfolding Q_def by auto
      have "explosionDecay ^ k \<le> explosionDecay ^ K"
        using decay_unit le by (intro power_decreasing) auto
      then have "explosionDecay ^ k * M \<le> explosionDecay ^ K * M"
        using assms by (rule mult_right_mono)
      then have "explosionDecay ^ k * M < 0.008" using QK unfolding Q_def by simp
      then show False using a k0 by simp
    qed
  next
    fix k assume "k < K"
    from least[OF this] show "k = 0 \<or> 0.008 \<le> explosionDecay ^ k * M"
      unfolding Q_def by auto
  qed
  moreover have "0 < K" using QK unfolding Q_def by simp
  ultimately show ?thesis by blast
qed

text \<open>
  C2. Take any state with an active explosion (buffers of \<open>n * 3\<close> cells) and any history
  of ticks, shape changes and signal updates none of which meets the clap thresholds.
  There is a tick count \<open>K > 0\<close>, fixed by the state, such that the explosion is still
  active after the history exactly when the history holds fewer than \<open>K\<close> ticks: the flag
  turns false once, at the \<open>K\<close>-th tick, and stays false. What decides it is the decayed
  velocity alone: after \<open>k > 0\<close> ticks the explosion is active exactly when
  \<open>explosionDecay ^ k\<close> times the largest aggregate velocity (sum of the absolute values
  of a particle's three components) is still at least 0.008.
\<close>

theorem explosion_self_terminates:
  assumes "explosionActive st" "length (positions st) = n * 3"
      and "length (explosionVelocities st) = n * 3"
  shows "\<exists>K>0. \<forall>evs. (\<forall>ev\<in>set evs. \<not> triggering ev) \<longrightarrow>
           (explosionActive (run n evs st) \<longleftrightarrow> tickCount evs < K) \<and>
           (explosionActive (run n evs st) \<longleftrightarrow>
              tickCount evs = 0 \<or>
              0.008 \<le> explosionDecay ^ tickCount evs * maxAggregate n (explosionVelocities st))"
proof -
  from decay_threshold[OF maxAggregate_nonneg[of n "explosionVelocities st"]]
  obtain K where K: "0 < K"
    "\<forall>k. (k = 0 \<or> 0.008 \<le> explosionDecay ^ k * maxAggregate n (explosionVelocities st)) \<longleftrightarrow> k < K"
    by blast
  show ?thesis
  proof (intro exI[of _ K] conjI allI impI)
    show "0 < K" by (rule K(1))
  next
    fix evs assume nt: "\<forall>ev\<in>set evs. \<not> triggering ev"
    from run_active[OF assms nt] K(2)
    show "explosionActive (run n evs st) \<longleftrightarrow> tickCount evs < K" by simp
  next
    fix evs assume nt: "\<forall>ev\<in>set evs. \<not> triggering ev"
    from run_active[OF assms nt]
    show "explosionActive (run n evs st) \<longleftrightarrow>
              tickCount evs = 0 \<or>
              0.008 \<le> explosionDecay ^ tickCount evs * maxAggregate n (explosionVelocities st)" .
  qed
qed

theorem explosion_self_terminates_witness:
  "explosionActive (run 1 (replicate 66 (Tick halfRnd)) explodedOne) \<and>
   \<not> explosionActive (run 1 (replicate 67 (Tick halfRnd)) explodedOne) \<and>
   (\<exists>K>0. \<forall>evs. (\<forall>ev\<in>set evs. \<not> triggering ev) \<longrightarrow>
           (explosionActive (run 1 evs explodedOne) \<longleftrightarrow> tickCount evs < K))"
proof -
  have h: "explosionActive explodedOne" "length (positions explodedOne) = 1 * 3"
    "length (explosionVelocities explodedOne) = 1 * 3"
    using explodedOne_state by simp_all
  from explosion_self_terminates [OF h] obtain K where K: "0 < K"
    "\<forall>evs. (\<forall>ev\<in>set evs. \<not> triggering ev) \<longrightarrow>
           (explosionActive (run 1 evs explodedOne) \<longleftrightarrow> tickCount evs < K) \<and>
           (explosionActive (run 1 evs explodedOne) \<longleftrightarrow>
              tickCount evs = 0 \<or>
              0.008 \<le> explosionDecay ^ tickCount evs * maxAggregate 1 (explosionVelocities explodedOne))"
    by blast
  have m: "maxAggregate 1 (explosionVelocities explodedOne) = 2"
    using explodedOne_state maxAggregate_explodedOne by simp
  have a: "explosionActive (run 1 (replicate 66 (Tick halfRnd)) explodedOne)"
    using K(2) replicate_not_triggering[of 66 halfRnd] decay_66
    unfolding m by (metis tickCount_replicate)
  have b: "\<not> explosionActive (run 1 (replicate 67 (Tick halfRnd)) explodedOne)"
  proof -
    have "\<not> (tickCount (replicate 67 (Tick halfRnd)) = 0 \<or>
            0.008 \<le> explosionDecay ^ tickCount (replicate 67 (Tick halfRnd)) * 2)"
      unfolding tickCount_replicate using decay_67 by simp
    then show ?thesis
      using K(2) replicate_not_triggering[of 67 halfRnd] unfolding m by blast
  qed
  show ?thesis using a b K by blast
qed

subsection \<open>The flag and the velocity buffer\<close>

lemma step_residualInv:
  assumes "residualInv n st"
  shows "residualInv n (step n ev st)"
proof -
  have lp: "length (positions st) = n * 3" and lv: "length (explosionVelocities st) = n * 3"
    and small: "\<not> explosionActive st \<Longrightarrow> \<forall>i<n. aggregate (explosionVelocities st) i < 0.008"
    using assms unfolding residualInv_def by auto
  note len = step_lengths[OF lp lv, of ev]
  have "\<not> explosionActive (step n ev st) \<Longrightarrow> \<forall>i<n. aggregate (explosionVelocities (step n ev st)) i < 0.008"
  proof (cases ev)
    case (Tick rnd)
    assume off: "\<not> explosionActive (step n ev st)"
    note eff = animate_effect[OF lp lv, of rnd]
    show ?thesis
    proof (cases "explosionActive st")
      case True
      then have "maxAggregate n (explosionVelocities (step n ev st)) < 0.008"
        using eff off Tick by auto
      then show ?thesis using maxAggregate_less_iff[of "0.008" n] by simp
    next
      case False
      then show ?thesis using eff small Tick by simp
    qed
  next
    case (HandUpdate rnd data)
    assume off: "\<not> explosionActive (step n ev st)"
    then show ?thesis using HandUpdate handleHandUpdate_effect[of n rnd data st] small by auto
  next
    case (ShapeChange cloud)
    assume off: "\<not> explosionActive (step n ev st)"
    then show ?thesis using ShapeChange small by (simp add: changeShape_def)
  qed
  then show ?thesis unfolding residualInv_def using len by blast
qed

lemma run_residualInv:
  assumes "residualInv n st"
  shows "residualInv n (run n evs st)"
  using assms
proof (induction evs arbitrary: st)
  case Nil
  then show ?case by (simp add: run_Nil)
next
  case (Cons ev evs)
  then show ?case using step_residualInv by (simp add: run_Cons)
qed

lemma init_residualInv:
  assumes "length pos0 = n * 3"
  shows "residualInv n (initEngine n pos0 tgt0)"
proof -
  have "\<forall>i<n. aggregate (replicate (n * 3) 0) i = 0"
    by (simp add: aggregate_def)
  then show ?thesis using assms by (simp add: residualInv_def initEngine_def)
qed

lemma step_switch_off:
  assumes "explosionActive st" "\<not> explosionActive (step n ev st)"
  shows "isTick ev"
  using assms handleHandUpdate_effect[of n _ _ st]
  by (cases ev) (auto simp: changeShape_def)

lemma step_switch_on:
  assumes "\<not> explosionActive st" "explosionActive (step n ev st)"
  shows "triggering ev"
  using assms step_inactive[of st ev n] by blast

text \<open>
  C4, as amended. In every state reached from the initial one: if no explosion is active,
  every particle's aggregate velocity is below 0.008 (the buffer is not cleared when the
  explosion ends); as long as no signal update met the clap thresholds, no explosion is
  active and the buffer is all zero; the flag turns from true to false only in a tick, and
  from false to true only in a signal update that meets the clap thresholds.
\<close>

theorem explosion_flag_and_velocities:
  assumes "length pos0 = n * 3"
  shows "(\<not> explosionActive (run n evs (initEngine n pos0 tgt0)) \<longrightarrow>
            (\<forall>i<n. aggregate (explosionVelocities (run n evs (initEngine n pos0 tgt0))) i < 0.008)) \<and>
         ((\<forall>ev\<in>set evs. \<not> triggering ev) \<longrightarrow>
            \<not> explosionActive (run n evs (initEngine n pos0 tgt0)) \<and>
            explosionVelocities (run n evs (initEngine n pos0 tgt0)) = replicate (n * 3) 0) \<and>
         (\<forall>ev. explosionActive (run n evs (initEngine n pos0 tgt0)) \<and>
               \<not> explosionActive (step n ev (run n evs (initEngine n pos0 tgt0))) \<longrightarrow> isTick ev) \<and>
         (\<forall>ev. \<not> explosionActive (run n evs (initEngine n pos0 tgt0)) \<and>
               explosionActive (step n ev (run n evs (initEngine n pos0 tgt0))) \<longrightarrow> triggering ev)"
proof -
  let ?st = "run n evs (initEngine n pos0 tgt0)"
  have inv: "residualInv n ?st"
    using run_residualInv[OF init_residualInv[OF assms]] .
  have a: "\<not> explosionActive ?st \<longrightarrow> (\<forall>i<n. aggregate (explosionVelocities ?st) i < 0.008)"
    using inv unfolding residualInv_def by blast
  have b: "(\<forall>ev\<in>set evs. \<not> triggering ev) \<longrightarrow>
            \<not> explosionActive ?st \<and> explosionVelocities ?st = replicate (n * 3) 0"
  proof
    assume nt: "\<forall>ev\<in>set evs. \<not> triggering ev"
    have "\<not> explosionActive (initEngine n pos0 tgt0)" by (simp add: initEngine_def)
    from run_inactive[OF this nt, of n]
    show "\<not> explosionActive ?st \<and> explosionVelocities ?st = replicate (n * 3) 0"
      by (simp add: initEngine_def)
  qed
  show ?thesis using a b step_switch_off step_switch_on by blast
qed

theorem explosion_flag_and_velocities_witness:
  "aggregate (explosionVelocities (run 1 (HandUpdate halfRnd clapSignal # replicate 67 (Tick halfRnd))
                                    (initEngine 1 [1, 0, 0] [1, 0, 0]))) 0 < 0.008 \<and>
   explosionVelocities (run 1 [Tick halfRnd, ShapeChange [2, 2, 2]] (initEngine 1 [1, 0, 0] [1, 0, 0]))
     = replicate (1 * 3) 0"
proof -
  have h: "length [1, 0, 0 :: real] = 1 * 3" by simp
  have nt: "\<forall>ev\<in>set [Tick halfRnd, ShapeChange [2, 2, 2]]. \<not> triggering ev" by simp
  have off: "\<not> explosionActive (run 1 (HandUpdate halfRnd clapSignal # replicate 67 (Tick halfRnd))
                                 (initEngine 1 [1, 0, 0] [1, 0, 0]))"
    unfolding clap_then_ticks by (rule ended_after_67)
  from explosion_flag_and_velocities
         [OF h, of "HandUpdate halfRnd clapSignal # replicate 67 (Tick halfRnd)" "[1, 0, 0]"] off
  have a: "aggregate (explosionVelocities (run 1 (HandUpdate halfRnd clapSignal # replicate 67 (Tick halfRnd))
                                    (initEngine 1 [1, 0, 0] [1, 0, 0]))) 0 < 0.008"
    by simp
  from explosion_flag_and_velocities [OF h, of "[Tick halfRnd, ShapeChange [2, 2, 2]]" "[1, 0, 0]"] nt
  have b: "explosionVelocities (run 1 [Tick halfRnd, ShapeChange [2, 2, 2]] (initEngine 1 [1, 0, 0] [1, 0, 0]))
     = replicate (1 * 3) 0"
    by blast
  show ?thesis using a b by simp
qed

text \<open>
  One particle at \<open>(1, 0, 0)\<close>: a clap gives it the velocity \<open>(2, 0, 0)\<close>; 67 ticks later
  the explosion has ended and the first component, \<open>2 * 0.92 ^ 67\<close>, is not zero.
\<close>

theorem residual_velocity_counterexample:
  "\<not> explosionActive (run 1 (HandUpdate halfRnd clapSignal # replicate 67 (Tick halfRnd))
                        (initEngine 1 [1, 0, 0] [1, 0, 0])) \<and>
   explosionVelocities (run 1 (HandUpdate halfRnd clapSignal # replicate 67 (Tick halfRnd))
                        (initEngine 1 [1, 0, 0] [1, 0, 0])) ! 0 \<noteq> 0"
proof -
  have h: "length (positions explodedOne) = 1 * 3" "length (explosionVelocities explodedOne) = 1 * 3"
    using explodedOne_state by simp_all
  have "explosionVelocities (run 1 (replicate 67 (Tick halfRnd)) explodedOne) ! 0 \<noteq> 0"
    by (rule run_keeps_nonzero[OF h replicate_not_triggering]) (simp_all add: explodedOne_state)
  then show ?thesis unfolding clap_then_ticks using ended_after_67 by simp
qed

section \<open>Properties of the single-precision store\<close>

lemma roundEven_bounds: "\<lfloor>q\<rfloor> \<le> roundEven q \<and> roundEven q \<le> \<lfloor>q\<rfloor> + 1"
  by (simp add: roundEven_def Let_def)

lemma roundEven_of_int: "roundEven (of_int m) = m"
  by (simp add: roundEven_def Let_def)

lemma roundEven_mono:
  assumes "q \<le> r"
  shows "roundEven q \<le> roundEven r"
proof (cases "\<lfloor>q\<rfloor> = \<lfloor>r\<rfloor>")
  case True
  then show ?thesis using assms by (auto simp: roundEven_def Let_def)
next
  case False
  then have "\<lfloor>q\<rfloor> < \<lfloor>r\<rfloor>" using assms floor_mono[OF assms] by simp
  then have "\<lfloor>q\<rfloor> + 1 \<le> \<lfloor>r\<rfloor>" by simp
  then show ?thesis using roundEven_bounds[of q] roundEven_bounds[of r] by linarith
qed

lemma ulp32_pos: "0 < ulp32 x"
  by (simp add: ulp32_def)

lemma expo32_ge: "- 126 \<le> expo32 x"
  by (simp add: expo32_def)

lemma expo32_eq:
  assumes "2 powr of_int e \<le> \<bar>x\<bar>" "\<bar>x\<bar> < 2 powr (of_int e + 1)" "- 126 \<le> e"
  shows "expo32 x = e"
proof -
  have "(0::real) < 2 powr of_int e" by simp
  then have "0 < \<bar>x\<bar>" using assms(1) by (rule less_le_trans)
  then have "\<lfloor>log 2 \<bar>x\<bar>\<rfloor> = e"
    using floor_log_eq_powr_iff[of "\<bar>x\<bar>" 2 e] assms by simp
  then show ?thesis using assms(3) by (simp add: expo32_def)
qed

lemma expo32_upper:
  assumes "0 < \<bar>x\<bar>"
  shows "\<bar>x\<bar> < 2 powr (of_int (expo32 x) + 1)"
proof -
  have "log 2 \<bar>x\<bar> < of_int \<lfloor>log 2 \<bar>x\<bar>\<rfloor> + 1" by linarith
  also have "\<dots> \<le> of_int (expo32 x) + 1" by (simp add: expo32_def)
  finally have "2 powr (log 2 \<bar>x\<bar>) < 2 powr (of_int (expo32 x) + 1)" by simp
  then show ?thesis using assms by simp
qed

lemma expo32_lower:
  assumes "0 < \<bar>x\<bar>" "- 126 < expo32 x"
  shows "2 powr of_int (expo32 x) \<le> \<bar>x\<bar>"
proof -
  have e: "expo32 x = \<lfloor>log 2 \<bar>x\<bar>\<rfloor>" using assms(2) by (simp add: expo32_def max_def split: if_splits)
  have "of_int \<lfloor>log 2 \<bar>x\<bar>\<rfloor> \<le> log 2 \<bar>x\<bar>" by simp
  then have "2 powr of_int (expo32 x) \<le> 2 powr (log 2 \<bar>x\<bar>)" unfolding e by simp
  then show ?thesis using assms(1) by simp
qed

lemma expo32_mono:
  assumes "0 < \<bar>x\<bar>" "\<bar>x\<bar> \<le> \<bar>y\<bar>"
  shows "expo32 x \<le> expo32 y"
proof -
  have "log 2 \<bar>x\<bar> \<le> log 2 \<bar>y\<bar>" using assms by (intro log_mono) auto
  then have "\<lfloor>log 2 \<bar>x\<bar>\<rfloor> \<le> \<lfloor>log 2 \<bar>y\<bar>\<rfloor>" by (rule floor_mono)
  then show ?thesis by (simp add: expo32_def)
qed

lemma two_powr_24: "(2::real) powr (of_int e + 1) = 16777216 * 2 powr (of_int e - 23)"
proof -
  have "of_int e + 1 = 24 + (of_int e - (23::real))" by simp
  then have "(2::real) powr (of_int e + 1) = 2 powr (24 + (of_int e - 23))" by (rule arg_cong)
  also have "\<dots> = 2 powr 24 * 2 powr (of_int e - 23)" by (rule powr_add)
  finally show ?thesis by simp
qed

lemma two_powr_23: "(2::real) powr (of_int e) = 8388608 * 2 powr (of_int e - 23)"
proof -
  have "of_int e = 23 + (of_int e - (23::real))" by simp
  then have "(2::real) powr (of_int e) = 2 powr (23 + (of_int e - 23))" by (rule arg_cong)
  also have "\<dots> = 2 powr 23 * 2 powr (of_int e - 23)" by (rule powr_add)
  finally show ?thesis by simp
qed

lemma mantissa_upper:
  assumes "0 < \<bar>x\<bar>"
  shows "roundEven (\<bar>x\<bar> / ulp32 x) \<le> 16777216"
proof -
  have "\<bar>x\<bar> < 16777216 * ulp32 x"
    using expo32_upper[OF assms] unfolding two_powr_24 ulp32_def .
  then have "\<bar>x\<bar> / ulp32 x \<le> of_int 16777216"
    using ulp32_pos[of x] by (simp add: pos_divide_le_eq)
  from roundEven_mono[OF this] show ?thesis by (simp only: roundEven_of_int)
qed

lemma mantissa_lower:
  assumes "0 < \<bar>x\<bar>" "- 126 < expo32 x"
  shows "8388608 \<le> roundEven (\<bar>x\<bar> / ulp32 x)"
proof -
  have "8388608 * ulp32 x \<le> \<bar>x\<bar>"
    using expo32_lower[OF assms] unfolding two_powr_23 ulp32_def .
  then have "of_int 8388608 \<le> \<bar>x\<bar> / ulp32 x"
    using ulp32_pos[of x] by (simp add: pos_le_divide_eq)
  from roundEven_mono[OF this] show ?thesis by (simp only: roundEven_of_int)
qed

lemma mantissa_nonneg: "0 \<le> roundEven (\<bar>x\<bar> / ulp32 x)"
proof -
  have "of_int 0 \<le> \<bar>x\<bar> / ulp32 x" using ulp32_pos[of x] by simp
  from roundEven_mono[OF this] show ?thesis by (simp only: roundEven_of_int)
qed

lemma fround_abs: "\<bar>fround x\<bar> = of_int (roundEven (\<bar>x\<bar> / ulp32 x)) * ulp32 x"
proof (cases "x = 0")
  case True
  then show ?thesis by (simp add: fround_def roundEven_def)
next
  case False
  then have "\<bar>sgn x\<bar> = 1" by (simp add: sgn_if)
  then show ?thesis
    using mantissa_nonneg[of x] ulp32_pos[of x]
    by (simp add: fround_def abs_mult)
qed

lemma fround_sgn: "fround x = sgn x * \<bar>fround x\<bar>"
  unfolding fround_abs by (simp add: fround_def)

lemma fround_abs_mono:
  assumes "\<bar>x\<bar> \<le> \<bar>y\<bar>"
  shows "\<bar>fround x\<bar> \<le> \<bar>fround y\<bar>"
proof (cases "x = 0")
  case True
  then show ?thesis by (simp add: fround_def)
next
  case False
  then have x0: "0 < \<bar>x\<bar>" by simp
  then have y0: "0 < \<bar>y\<bar>" using assms by linarith
  note em = expo32_mono[OF x0 assms]
  show ?thesis
  proof (cases "expo32 x = expo32 y")
    case True
    then have u: "ulp32 x = ulp32 y" by (simp add: ulp32_def)
    have "\<bar>x\<bar> / ulp32 y \<le> \<bar>y\<bar> / ulp32 y"
      using assms ulp32_pos[of y] by (simp add: divide_right_mono)
    from roundEven_mono[OF this]
    have "(of_int (roundEven (\<bar>x\<bar> / ulp32 y)) :: real) \<le> of_int (roundEven (\<bar>y\<bar> / ulp32 y))"
      by simp
    then show ?thesis unfolding fround_abs u
      using ulp32_pos[of y] by (simp add: mult_right_mono)
  next
    case False
    then have lt: "expo32 x + 1 \<le> expo32 y" using em by simp
    then have normal: "- 126 < expo32 y" using expo32_ge[of x] by linarith
    have "\<bar>fround x\<bar> \<le> 16777216 * ulp32 x"
      unfolding fround_abs using mantissa_upper[OF x0] ulp32_pos[of x]
      by (simp add: mult_right_mono)
    also have "\<dots> = 2 powr (of_int (expo32 x) + 1)"
      unfolding ulp32_def two_powr_24 by simp
    also have "\<dots> \<le> 2 powr (of_int (expo32 y))"
      using lt by simp
    also have "\<dots> = 8388608 * ulp32 y"
      unfolding ulp32_def by (rule two_powr_23)
    also have "\<dots> \<le> \<bar>fround y\<bar>"
      unfolding fround_abs using mantissa_lower[OF y0 normal] ulp32_pos[of y]
      by (simp add: mult_right_mono)
    finally show ?thesis .
  qed
qed

lemma fround_mono:
  assumes "x \<le> y"
  shows "fround x \<le> fround y"
proof -
  consider "0 \<le> x" | "y \<le> 0" | "x < 0" "0 < y" by linarith
  then show ?thesis
  proof cases
    case 1
    then have "\<bar>x\<bar> \<le> \<bar>y\<bar>" using assms by simp
    from fround_abs_mono[OF this] 1 assms show ?thesis
      using fround_sgn[of x] fround_sgn[of y] by (cases "x = 0"; cases "y = 0") (auto simp: sgn_if)
  next
    case 2
    then have "\<bar>y\<bar> \<le> \<bar>x\<bar>" using assms by simp
    from fround_abs_mono[OF this] 2 assms show ?thesis
      using fround_sgn[of x] fround_sgn[of y] by (cases "x = 0"; cases "y = 0") (auto simp: sgn_if)
  next
    case 3
    have "fround x \<le> 0" using 3(1) fround_sgn[of x] by (simp add: sgn_if)
    moreover have "0 \<le> fround y" using 3(2) fround_sgn[of y] by (simp add: sgn_if)
    ultimately show ?thesis by simp
  qed
qed

lemma expo32_le:
  assumes "0 < \<bar>y\<bar>" "\<bar>y\<bar> < 2 powr (of_int e + 1)" "- 126 \<le> e"
  shows "expo32 y \<le> e"
proof -
  have "2 powr (log 2 \<bar>y\<bar>) < 2 powr (of_int e + 1)" using assms(1,2) by simp
  then have "log 2 \<bar>y\<bar> < of_int e + 1" by simp
  then have "log 2 \<bar>y\<bar> < of_int (e + 1)" by simp
  then have "\<lfloor>log 2 \<bar>y\<bar>\<rfloor> < e + 1" by (simp only: floor_less_iff)
  then show ?thesis using assms(3) by (simp add: expo32_def)
qed

lemma fround_zero: "fround 0 = 0"
  by (simp add: fround_def)

lemma fround_fixed:
  assumes "\<bar>y\<bar> = of_int m * ulp32 y"
  shows "fround y = y"
proof -
  have "\<bar>y\<bar> / ulp32 y = of_int m" using assms ulp32_pos[of y] by simp
  then have "roundEven (\<bar>y\<bar> / ulp32 y) = m" by (simp only: roundEven_of_int)
  then have "\<bar>fround y\<bar> = \<bar>y\<bar>" unfolding fround_abs using assms by simp
  then show ?thesis using fround_sgn[of y] by (simp add: fround_def sgn_if split: if_splits)
qed

lemma fround_idem: "fround (fround x) = fround x"
proof (cases "fround x = 0")
  case True
  then show ?thesis by (simp add: fround_zero)
next
  case False
  define y where "y = fround x"
  define M where "M = roundEven (\<bar>x\<bar> / ulp32 x)"
  define e where "e = expo32 x"
  have y: "\<bar>y\<bar> = of_int M * ulp32 x" unfolding y_def M_def by (rule fround_abs)
  have y0: "0 < \<bar>y\<bar>" using False by (simp add: y_def)
  have x0: "0 < \<bar>x\<bar>" using False by (auto simp: fround_def)
  have u: "ulp32 x = 2 powr (of_int e - 23)" by (simp add: ulp32_def e_def)
  have Mle: "M \<le> 16777216" unfolding M_def by (rule mantissa_upper[OF x0])
  have e126: "- 126 \<le> e" unfolding e_def by (rule expo32_ge)
  have "\<exists>m. \<bar>y\<bar> = of_int m * ulp32 y"
  proof (cases "M = 16777216")
    case True
    have top: "\<bar>y\<bar> = 2 powr (of_int (e + 1))"
      unfolding y True u using two_powr_24[of e] by simp
    have "expo32 y = e + 1"
    proof (rule expo32_eq)
      show "2 powr of_int (e + 1) \<le> \<bar>y\<bar>" using top by simp
      show "\<bar>y\<bar> < 2 powr (of_int (e + 1) + 1)" unfolding top by simp
      show "- 126 \<le> e + 1" using e126 by simp
    qed
    then have "ulp32 y = 2 powr (of_int (e + 1) - 23)" by (simp add: ulp32_def)
    then have "\<bar>y\<bar> = of_int 8388608 * ulp32 y"
      unfolding top using two_powr_23[of "e + 1"] by simp
    then show ?thesis by blast
  next
    case False
    then have Mlt: "M < 16777216" using Mle by simp
    have "of_int M * ulp32 x < 16777216 * ulp32 x"
      using Mlt ulp32_pos[of x] by (simp add: mult_strict_right_mono)
    then have below: "\<bar>y\<bar> < 2 powr (of_int e + 1)"
      unfolding y two_powr_24 u .
    have "expo32 y = e"
    proof (cases "- 126 < e")
      case True
      have "8388608 \<le> M" unfolding M_def using mantissa_lower[OF x0] True by (simp add: e_def)
      then have "8388608 * ulp32 x \<le> of_int M * ulp32 x"
        using ulp32_pos[of x] by (simp add: mult_right_mono)
      then have "2 powr of_int e \<le> \<bar>y\<bar>" unfolding y two_powr_23[of e] u .
      from expo32_eq[OF this below e126] show ?thesis .
    next
      case False
      then have "e = - 126" using e126 by simp
      moreover have "expo32 y \<le> e" by (rule expo32_le[OF y0 below e126])
      ultimately show ?thesis using expo32_ge[of y] by simp
    qed
    then have "ulp32 y = ulp32 x" by (simp add: ulp32_def e_def)
    then show ?thesis using y by auto
  qed
  then obtain m where "\<bar>y\<bar> = of_int m * ulp32 y" by blast
  from fround_fixed[OF this] show ?thesis by (simp add: y_def)
qed

lemma fround_eval:
  assumes "2 powr of_int e \<le> \<bar>x\<bar>" "\<bar>x\<bar> < 2 powr (of_int e + 1)" "- 126 \<le> e"
  shows "fround x = sgn x * (of_int (roundEven (\<bar>x\<bar> / 2 powr (of_int e - 23))) * 2 powr (of_int e - 23))"
  using expo32_eq[OF assms] by (simp add: fround_def ulp32_def)

lemma ulp_binade_2: "(2::real) powr (of_int 2 - 23) = 1 / 2097152"
proof -
  have "(2::real) powr (of_int 2 - 23) = 2 powr (- 21)" by simp
  also have "\<dots> = inverse (2 powr 21)" by (rule powr_minus)
  also have "\<dots> = 1 / 2097152" by (simp add: inverse_eq_divide)
  finally show ?thesis .
qed

lemma fround_binade_2:
  assumes "4 \<le> x" "x < 8"
  shows "fround x = of_int (roundEven (x * 2097152)) / 2097152"
proof -
  have a: "2 powr of_int 2 \<le> \<bar>x\<bar>" "\<bar>x\<bar> < 2 powr (of_int 2 + 1)" using assms by simp_all
  have s: "sgn x = 1" "\<bar>x\<bar> = x" using assms by simp_all
  from fround_eval[OF a] show ?thesis unfolding ulp_binade_2 s by simp
qed

lemma fround_5: "fround 5 = 5"
  by (simp add: fround_binade_2 roundEven_def)

lemma fround_below_5: "fround (5 - 1 / 2097152) = 5 - 1 / 2097152"
  by (simp add: fround_binade_2 roundEven_def)

lemma fround_stall:
  "fround ((5 - 1 / 2097152) + (5 - (5 - 1 / 2097152)) * 0.035) = 5 - 1 / 2097152"
  by (simp add: fround_binade_2 roundEven_def Let_def)

section \<open>Properties of the tick with stores\<close>

text \<open>With exact stores the tick is \<open>animate\<close>.\<close>

lemma updateParticleStored_exact:
  "updateParticleStored (\<lambda>x. x) active grab tens rnd tgts i s = updateParticle active grab tens rnd tgts i s"
  by (cases s) (simp add: updateParticleStored_def updateParticle_def Let_def)

lemma particleLoopStored_exact:
  "particleLoopStored (\<lambda>x. x) n active grab tens rnd tgts s = particleLoop n active grab tens rnd tgts s"
proof -
  have "updateParticleStored (\<lambda>x. x) active grab tens rnd tgts = updateParticle active grab tens rnd tgts"
    by (intro ext) (rule updateParticleStored_exact)
  then show ?thesis by (simp add: particleLoopStored_def particleLoop_def)
qed

lemma animateStored_exact: "animateStored (\<lambda>x. x) n rnd st = animate n rnd st"
  by (simp add: animateStored_def animate_def particleLoopStored_exact)

lemma updateParticleStored_eq:
  "updateParticleStored store a g t r tg i (P, V, M) =
     (P[i * 3 := coordAfterStored store a g t r tg P V (i * 3),
        i * 3 + 1 := coordAfterStored store a g t r tg P V (i * 3 + 1),
        i * 3 + 2 := coordAfterStored store a g t r tg P V (i * 3 + 2)],
      if a then V[i * 3 := store (V ! (i * 3) * explosionDecay),
                  i * 3 + 1 := store (V ! (i * 3 + 1) * explosionDecay),
                  i * 3 + 2 := store (V ! (i * 3 + 2) * explosionDecay)] else V,
      if a then max M (\<bar>store (V ! (i * 3) * explosionDecay)\<bar> + \<bar>store (V ! (i * 3 + 1) * explosionDecay)\<bar>
                       + \<bar>store (V ! (i * 3 + 2) * explosionDecay)\<bar>) else M)"
  by (simp add: updateParticleStored_def coordAfterStored_def Let_def max_def)

lemma particleLoopStored_0: "particleLoopStored store 0 a g t r tg s = s"
  by (simp add: particleLoopStored_def)

lemma particleLoopStored_Suc:
  "particleLoopStored store (Suc k) a g t r tg s =
     updateParticleStored store a g t r tg k (particleLoopStored store k a g t r tg s)"
  by (simp add: particleLoopStored_def)

lemma particleLoopStored_inv:
  assumes "k * 3 \<le> length pos" "length vels = length pos"
  shows "\<exists>P V M. particleLoopStored store k a g t r tg (pos, vels, 0) = (P, V, M) \<and>
           length P = length pos \<and> length V = length pos \<and>
           (\<forall>j<length pos. P ! j = (if j < k * 3 then coordAfterStored store a g t r tg pos vels j else pos ! j)) \<and>
           (\<forall>j<length pos. V ! j = (if a \<and> j < k * 3 then store (vels ! j * explosionDecay) else vels ! j)) \<and>
           M = (if a then maxAggregate k (map (\<lambda>v. store (v * explosionDecay)) vels) else 0)"
  using assms
proof (induction k)
  case 0
  then show ?case by (simp add: particleLoopStored_0 maxAggregate_0)
next
  case (Suc k)
  then obtain P V M where ih: "particleLoopStored store k a g t r tg (pos, vels, 0) = (P, V, M)"
      "length P = length pos" "length V = length pos"
      "\<forall>j<length pos. P ! j = (if j < k * 3 then coordAfterStored store a g t r tg pos vels j else pos ! j)"
      "\<forall>j<length pos. V ! j = (if a \<and> j < k * 3 then store (vels ! j * explosionDecay) else vels ! j)"
      "M = (if a then maxAggregate k (map (\<lambda>v. store (v * explosionDecay)) vels) else 0)"
    by auto
  have len: "k * 3 + 2 < length pos" using Suc.prems by simp
  have P0: "P ! (k * 3) = pos ! (k * 3)" "P ! (k * 3 + 1) = pos ! (k * 3 + 1)"
           "P ! (k * 3 + 2) = pos ! (k * 3 + 2)"
    using ih(4) len by simp_all
  have V0: "V ! (k * 3) = vels ! (k * 3)" "V ! (k * 3 + 1) = vels ! (k * 3 + 1)"
           "V ! (k * 3 + 2) = vels ! (k * 3 + 2)"
    using ih(5) len by simp_all
  have c: "coordAfterStored store a g t r tg P V (k * 3) = coordAfterStored store a g t r tg pos vels (k * 3)"
          "coordAfterStored store a g t r tg P V (k * 3 + 1) = coordAfterStored store a g t r tg pos vels (k * 3 + 1)"
          "coordAfterStored store a g t r tg P V (k * 3 + 2) = coordAfterStored store a g t r tg pos vels (k * 3 + 2)"
    by (simp_all only: coordAfterStored_def P0 V0)
  have agg: "\<bar>store (vels ! (k * 3) * explosionDecay)\<bar> + \<bar>store (vels ! (k * 3 + 1) * explosionDecay)\<bar>
             + \<bar>store (vels ! (k * 3 + 2) * explosionDecay)\<bar>
             = aggregate (map (\<lambda>v. store (v * explosionDecay)) vels) k"
    using len Suc.prems(2) by (simp add: aggregate_def)
  let ?P = "P[k * 3 := coordAfterStored store a g t r tg pos vels (k * 3),
              k * 3 + 1 := coordAfterStored store a g t r tg pos vels (k * 3 + 1),
              k * 3 + 2 := coordAfterStored store a g t r tg pos vels (k * 3 + 2)]"
  let ?V = "if a then V[k * 3 := store (vels ! (k * 3) * explosionDecay),
                        k * 3 + 1 := store (vels ! (k * 3 + 1) * explosionDecay),
                        k * 3 + 2 := store (vels ! (k * 3 + 2) * explosionDecay)] else V"
  let ?M = "if a then max M (aggregate (map (\<lambda>v. store (v * explosionDecay)) vels) k) else M"
  have step: "particleLoopStored store (Suc k) a g t r tg (pos, vels, 0) = (?P, ?V, ?M)"
    unfolding particleLoopStored_Suc ih(1) updateParticleStored_eq c V0 agg by (rule refl)
  have lP: "length ?P = length pos" using ih(2) by simp
  have lV: "length ?V = length pos" using ih(3) by simp
  have nP: "\<forall>j<length pos. ?P ! j = (if j < Suc k * 3 then coordAfterStored store a g t r tg pos vels j else pos ! j)"
  proof (intro allI impI)
    fix j assume j: "j < length pos"
    have "k * 3 + 2 < length P" using len ih(2) by simp
    from update3_nth[OF this] ih(4) j
    show "?P ! j = (if j < Suc k * 3 then coordAfterStored store a g t r tg pos vels j else pos ! j)"
      unfolding three_cases by auto
  qed
  have nV: "\<forall>j<length pos. ?V ! j = (if a \<and> j < Suc k * 3 then store (vels ! j * explosionDecay) else vels ! j)"
  proof (intro allI impI)
    fix j assume j: "j < length pos"
    have "k * 3 + 2 < length V" using len ih(3) by simp
    from update3_nth[OF this] ih(5) j
    show "?V ! j = (if a \<and> j < Suc k * 3 then store (vels ! j * explosionDecay) else vels ! j)"
      unfolding three_cases by auto
  qed
  have mM: "?M = (if a then maxAggregate (Suc k) (map (\<lambda>v. store (v * explosionDecay)) vels) else 0)"
    using ih(6) by (simp add: maxAggregate_Suc)
  show ?case using step lP lV nP nV mM by blast
qed

lemma animateStored_loop:
  assumes "particleLoopStored store n (explosionActive st) (grabbing (hand st)) (effectiveTension (hand st)) rnd
             (targets st) (positions st, explosionVelocities st, 0) = (P, V, M)"
  shows "positions (animateStored store n rnd st) = P \<and> explosionVelocities (animateStored store n rnd st) = V \<and>
         explosionActive (animateStored store n rnd st) = (explosionActive st \<and> \<not> M < 0.008) \<and>
         targets (animateStored store n rnd st) = targets st \<and> hand (animateStored store n rnd st) = hand st \<and>
         pointsRef (animateStored store n rnd st) = pointsRef st"
  using assms by (auto simp add: animateStored_def Let_def effectiveTension_def)

lemma animateStored_effect:
  assumes lp: "length (positions st) = n * 3" and lv: "length (explosionVelocities st) = n * 3"
  shows "length (positions (animateStored store n rnd st)) = n * 3 \<and>
         length (explosionVelocities (animateStored store n rnd st)) = n * 3 \<and>
         (\<forall>j<n * 3. positions (animateStored store n rnd st) ! j =
            coordAfterStored store (explosionActive st) (grabbing (hand st)) (effectiveTension (hand st)) rnd
              (targets st) (positions st) (explosionVelocities st) j) \<and>
         (explosionActive (animateStored store n rnd st) \<longrightarrow> explosionActive st) \<and>
         targets (animateStored store n rnd st) = targets st \<and> hand (animateStored store n rnd st) = hand st"
proof -
  let ?a = "explosionActive st" and ?pos = "positions st" and ?vels = "explosionVelocities st"
  from particleLoopStored_inv[of n ?pos ?vels store ?a "grabbing (hand st)" "effectiveTension (hand st)" rnd "targets st"]
  obtain P V M where loop: "particleLoopStored store n ?a (grabbing (hand st)) (effectiveTension (hand st)) rnd
             (targets st) (?pos, ?vels, 0) = (P, V, M)"
    and lP: "length P = length ?pos" and lV: "length V = length ?pos"
    and nP: "\<forall>j<length ?pos. P ! j = (if j < n * 3 then coordAfterStored store ?a (grabbing (hand st))
                 (effectiveTension (hand st)) rnd (targets st) ?pos ?vels j else ?pos ! j)"
    using lp lv by auto
  note an = animateStored_loop[OF loop]
  show ?thesis
    using an lP lV lp nP by auto
qed

lemma ticksStored_Nil: "ticksStored store n [] st = st"
  by (simp add: ticksStored_def)

lemma ticksStored_snoc:
  "ticksStored store n (rs @ [rnd]) st = animateStored store n rnd (ticksStored store n rs st)"
  by (simp add: ticksStored_def)

lemma ticksStored_keep:
  assumes "length (positions st) = n * 3" "length (explosionVelocities st) = n * 3"
      and "\<not> explosionActive st" "j < n * 3"
      and "\<forall>x. store (store x) = store x" "store (positions st ! j) = positions st ! j"
  shows "hand (ticksStored store n rs st) = hand st \<and> targets (ticksStored store n rs st) = targets st \<and>
         length (positions (ticksStored store n rs st)) = n * 3 \<and>
         length (explosionVelocities (ticksStored store n rs st)) = n * 3 \<and>
         \<not> explosionActive (ticksStored store n rs st) \<and>
         store (positions (ticksStored store n rs st) ! j) = positions (ticksStored store n rs st) ! j"
proof (induction rs rule: rev_induct)
  case Nil
  then show ?case using assms by (simp add: ticksStored_Nil)
next
  case (snoc r rs)
  let ?b = "ticksStored store n rs st"
  have lb: "length (positions ?b) = n * 3" "length (explosionVelocities ?b) = n * 3"
    using snoc by simp_all
  note eff = animateStored_effect[OF lb, of store r]
  have "positions (animateStored store n r ?b) ! j =
          coordAfterStored store (explosionActive ?b) (grabbing (hand ?b)) (effectiveTension (hand ?b)) r
              (targets ?b) (positions ?b) (explosionVelocities ?b) j"
    using eff assms(4) by blast
  then have "store (positions (animateStored store n r ?b) ! j) = positions (animateStored store n r ?b) ! j"
    using assms(5) by (simp add: coordAfterStored_def)
  then show ?case using eff snoc by (auto simp: ticksStored_snoc)
qed

lemma quiet_tick_stored:
  assumes lp: "length (positions st) = n * 3" and lv: "length (explosionVelocities st) = n * 3"
      and quiet: "\<not> explosionActive st" "effectiveTension (hand st) = 0" "\<not> grabbing (hand st)"
      and j: "j < n * 3"
  shows "positions (animateStored store n rnd st) ! j =
           store (positions st ! j + (targets st ! j - positions st ! j) * lerpSpeed)"
proof -
  note eff = animateStored_effect[OF lp lv, of store rnd]
  have "positions (animateStored store n rnd st) ! j =
      coordAfterStored store (explosionActive st) (grabbing (hand st)) (effectiveTension (hand st)) rnd
              (targets st) (positions st) (explosionVelocities st) j"
    using eff j by blast
  then show ?thesis using quiet by (simp add: coordAfterStored_def pullTarget_def)
qed

lemma blend_between:
  fixes p c :: real
  shows "(p \<le> c \<longrightarrow> p \<le> p + (c - p) * lerpSpeed \<and> p + (c - p) * lerpSpeed \<le> c) \<and>
         (c \<le> p \<longrightarrow> c \<le> p + (c - p) * lerpSpeed \<and> p + (c - p) * lerpSpeed \<le> p) \<and>
         \<bar>c - (p + (c - p) * lerpSpeed)\<bar> = (1 - lerpSpeed) * \<bar>c - p\<bar>"
proof -
  have e: "c - (p + (c - p) * lerpSpeed) = (1 - lerpSpeed) * (c - p)"
    by (simp add: algebra_simps)
  have r: "0 \<le> 1 - lerpSpeed" "0 \<le> lerpSpeed" "lerpSpeed \<le> 1" by (simp_all add: lerpSpeed_def)
  have a: "\<bar>c - (p + (c - p) * lerpSpeed)\<bar> = (1 - lerpSpeed) * \<bar>c - p\<bar>"
    unfolding e abs_mult using r(1) by (simp only: abs_of_nonneg)
  have up: "p \<le> c \<Longrightarrow> p \<le> p + (c - p) * lerpSpeed \<and> p + (c - p) * lerpSpeed \<le> c"
  proof -
    assume h: "p \<le> c"
    have "0 \<le> (c - p) * lerpSpeed" using h r(2) by simp
    moreover have "(c - p) * lerpSpeed \<le> (c - p) * 1"
      using h r(3) by (intro mult_left_mono) auto
    ultimately show ?thesis by simp
  qed
  have down: "c \<le> p \<Longrightarrow> c \<le> p + (c - p) * lerpSpeed \<and> p + (c - p) * lerpSpeed \<le> p"
  proof -
    assume h: "c \<le> p"
    have "0 \<le> (p - c) * lerpSpeed" using h r(2) by simp
    moreover have "(p - c) * lerpSpeed \<le> (p - c) * 1"
      using h r(3) by (intro mult_left_mono) auto
    ultimately show ?thesis by (simp add: algebra_simps)
  qed
  show ?thesis using a up down by blast
qed

lemma fround_7: "fround 7 = 7"
  by (simp add: fround_binade_2 roundEven_def)

lemma fround_mono_all: "\<forall>x y. x \<le> y \<longrightarrow> fround x \<le> fround y"
  using fround_mono by blast

lemma fround_idem_all: "\<forall>x. fround (fround x) = fround x"
  using fround_idem by blast

subsection \<open>Inward pull\<close>

text \<open>
  C9, as amended. For every store conversion, the tick leaves the \<open>targets\<close> array as it
  was and moves each position coordinate, in the explosion branch and in the morph branch
  alike, towards a resolved target: the target coordinate multiplied by one minus the
  pull fraction when the signal is grabbing, or when a hand is present and the tension
  exceeds 0.5, and the target coordinate itself otherwise (so also when no hand is
  present, whatever the tension of the signal). The pull fraction is the constant 0.6
  when grabbing and \<open>(tension - 0.5) * 0.8\<close> otherwise, which is below 0.6 for every
  tension in \<open>(0.5, 1]\<close>.
\<close>

theorem implosion_pull:
  assumes lp: "length (positions st) = n * 3" and lv: "length (explosionVelocities st) = n * 3"
      and lt: "length (targets st) = n * 3" and j: "j < n * 3"
  shows "targets (animateStored store n rnd st) = targets st \<and>
         positions (animateStored store n rnd st) ! j =
           (if explosionActive st
            then store (store (positions st ! j + explosionVelocities st ! j) +
                 ((if grabbing (hand st) \<or> (isPresent (hand st) \<and> tension (hand st) > 0.5)
                   then targets st ! j * (1 - pullFraction (grabbing (hand st)) (tension (hand st)))
                   else targets st ! j)
                  - store (positions st ! j + explosionVelocities st ! j)) * lerpSpeed * 0.4)
            else store (positions st ! j +
                 (((if grabbing (hand st) \<or> (isPresent (hand st) \<and> tension (hand st) > 0.5)
                    then targets st ! j * (1 - pullFraction (grabbing (hand st)) (tension (hand st)))
                    else targets st ! j)
                   - positions st ! j) * lerpSpeed
                  + (rnd j - 0.5) * (effectiveTension (hand st) * 0.1)))) \<and>
         (\<forall>t. pullFraction True t = 0.6 \<and> pullFraction False t = (t - 0.5) * 0.8 \<and>
              (0.5 < t \<and> t \<le> 1 \<longrightarrow> pullFraction False t < pullFraction True t))"
proof -
  note eff = animateStored_effect[OF lp lv, of store rnd]
  have p: "positions (animateStored store n rnd st) ! j =
      coordAfterStored store (explosionActive st) (grabbing (hand st)) (effectiveTension (hand st)) rnd
              (targets st) (positions st) (explosionVelocities st) j"
    using eff j by blast
  have t: "pullTarget (grabbing (hand st)) (effectiveTension (hand st)) (targets st ! j) =
           (if grabbing (hand st) \<or> (isPresent (hand st) \<and> tension (hand st) > 0.5)
            then targets st ! j * (1 - pullFraction (grabbing (hand st)) (tension (hand st)))
            else targets st ! j)"
    by (simp add: pullTarget_def pullFraction_def effectiveTension_def Let_def)
  have f: "\<forall>t. pullFraction True t = 0.6 \<and> pullFraction False t = (t - 0.5) * 0.8 \<and>
              (0.5 < t \<and> t \<le> 1 \<longrightarrow> pullFraction False t < pullFraction True t)"
    by (simp add: pullFraction_def)
  show ?thesis using eff f unfolding p coordAfterStored_def t by simp
qed

theorem implosion_pull_witness:
  "targets (animateStored fround 1 halfRnd grabState) = [1, 1, 1] \<and>
   positions (animateStored fround 1 halfRnd grabState) ! 0 = fround 0.014"
proof -
  have h: "length (positions grabState) = 1 * 3" "length (explosionVelocities grabState) = 1 * 3"
    "length (targets grabState) = 1 * 3" "(0::nat) < 1 * 3"
    by (simp_all add: grabState_def initEngine_def)
  from implosion_pull [OF h, of fround halfRnd] show ?thesis
    by (simp add: grabState_def initEngine_def pullFraction_def lerpSpeed_def halfRnd_def
        effectiveTension_def)
qed

text \<open>
  A signal without a hand whose tension is 0.8, one particle at the origin with targets at
  200: the tick, with single-precision stores and with exact ones, moves the coordinate
  to \<open>200 * 0.035 = 7\<close>, the step towards the target itself; a pull by
  \<open>(0.8 - 0.5) * 0.8\<close> would move it to 5.32.
\<close>

theorem absent_tension_counterexample:
  "0.5 < tension (hand absentTense) \<and> targets absentTense ! 0 = 200 \<and>
   positions (animateStored fround 1 halfRnd absentTense) ! 0 = 7 \<and>
   positions (animate 1 halfRnd absentTense) ! 0 = 7 \<and>
   200 * (1 - pullFraction False 0.8) * lerpSpeed = (5.32 :: real)"
proof -
  have l: "length (positions absentTense) = 1 * 3" "length (explosionVelocities absentTense) = 1 * 3"
    by (simp_all add: absentTense_def initEngine_def)
  have a: "positions (animateStored store 1 halfRnd absentTense) ! 0 = store 7" for store
    using animateStored_effect[OF l, of store halfRnd]
    by (simp add: coordAfterStored_def pullTarget_def absentTense_def initEngine_def
        effectiveTension_def lerpSpeed_def halfRnd_def)
  have "positions (animate 1 halfRnd absentTense) ! 0 = 7"
    using a[of "\<lambda>x. x"] unfolding animateStored_exact .
  then show ?thesis using a[of fround]
    by (simp add: fround_7 absentTense_def initEngine_def pullFraction_def lerpSpeed_def)
qed

subsection \<open>Morphing towards the targets\<close>

text \<open>
  C7, as amended. A shape change stores the new cloud as \<open>targets\<close> and leaves \<open>positions\<close>
  as it was. Let no explosion be active, the tension the tick works with be 0 and the
  signal not grabbing, and let the store conversion be monotone and idempotent and leave
  the coordinate's position and target as they are (as \<open>fround\<close> does with the contents of
  a \<open>Float32Array\<close>). Then after any number of ticks the next tick replaces the coordinate
  by the stored value of \<open>position + (target - position) * lerpSpeed\<close>, a number whose
  distance to the target is \<open>1 - lerpSpeed\<close> times the old one; the stored coordinate is
  never farther from the target than before and never past it, and it is strictly closer
  whenever the tick changed it.
\<close>

theorem morph_convergence:
  assumes quiet: "\<not> explosionActive st" "effectiveTension (hand st) = 0" "\<not> grabbing (hand st)"
      and lp: "length (positions st) = n * 3" and lv: "length (explosionVelocities st) = n * 3"
      and lc: "length cloud = n * 3" and j: "j < n * 3"
      and mono: "\<forall>x y. x \<le> y \<longrightarrow> store x \<le> store y"
      and idem: "\<forall>x. store (store x) = store x"
      and fixp: "store (positions st ! j) = positions st ! j"
      and fixc: "store (cloud ! j) = cloud ! j"
  shows "positions (changeShape cloud st) = positions st \<and> targets (changeShape cloud st) = cloud \<and>
         (\<forall>rs rnd.
            positions (ticksStored store n (rs @ [rnd]) (changeShape cloud st)) ! j =
              store (positions (ticksStored store n rs (changeShape cloud st)) ! j +
                     (cloud ! j - positions (ticksStored store n rs (changeShape cloud st)) ! j) * lerpSpeed) \<and>
            \<bar>cloud ! j - (positions (ticksStored store n rs (changeShape cloud st)) ! j +
                     (cloud ! j - positions (ticksStored store n rs (changeShape cloud st)) ! j) * lerpSpeed)\<bar>
              = (1 - lerpSpeed) * \<bar>cloud ! j - positions (ticksStored store n rs (changeShape cloud st)) ! j\<bar> \<and>
            \<bar>cloud ! j - positions (ticksStored store n (rs @ [rnd]) (changeShape cloud st)) ! j\<bar>
              \<le> \<bar>cloud ! j - positions (ticksStored store n rs (changeShape cloud st)) ! j\<bar> \<and>
            (positions (ticksStored store n (rs @ [rnd]) (changeShape cloud st)) ! j
               \<noteq> positions (ticksStored store n rs (changeShape cloud st)) ! j \<longrightarrow>
             \<bar>cloud ! j - positions (ticksStored store n (rs @ [rnd]) (changeShape cloud st)) ! j\<bar>
               < \<bar>cloud ! j - positions (ticksStored store n rs (changeShape cloud st)) ! j\<bar>))"
proof -
  let ?s0 = "changeShape cloud st"
  let ?pos = "\<lambda>rs. positions (ticksStored store n rs ?s0) ! j"
  have main: "?pos (rs @ [rnd]) = store (?pos rs + (cloud ! j - ?pos rs) * lerpSpeed) \<and>
        \<bar>cloud ! j - (?pos rs + (cloud ! j - ?pos rs) * lerpSpeed)\<bar> = (1 - lerpSpeed) * \<bar>cloud ! j - ?pos rs\<bar> \<and>
        \<bar>cloud ! j - ?pos (rs @ [rnd])\<bar> \<le> \<bar>cloud ! j - ?pos rs\<bar> \<and>
        (?pos (rs @ [rnd]) \<noteq> ?pos rs \<longrightarrow> \<bar>cloud ! j - ?pos (rs @ [rnd])\<bar> < \<bar>cloud ! j - ?pos rs\<bar>)"
    for rs rnd
  proof -
    let ?b = "ticksStored store n rs ?s0"
    define p where "p = positions ?b ! j"
    define c where "c = cloud ! j"
    define q where "q = p + (c - p) * lerpSpeed"
    define p' where "p' = positions (ticksStored store n (rs @ [rnd]) ?s0) ! j"
    have l0: "length (positions ?s0) = n * 3" "length (explosionVelocities ?s0) = n * 3"
      "\<not> explosionActive ?s0" "store (positions ?s0 ! j) = positions ?s0 ! j"
      using lp lv quiet fixp by (simp_all add: changeShape_def)
    note keep = ticksStored_keep[OF l0(1,2,3) j idem l0(4), of rs]
    have hb: "hand ?b = hand st" and tb: "targets ?b = cloud"
      using keep by (simp_all add: changeShape_def)
    have sp: "store p = p" unfolding p_def using keep by blast
    have sc: "store c = c" unfolding c_def by (rule fixc)
    have step: "p' = store q"
      unfolding p'_def q_def p_def c_def ticksStored_snoc
      using quiet_tick_stored[of ?b n j store rnd] keep hb tb quiet j by simp
    note bb = blend_between[of p c]
    have shrink: "\<bar>c - q\<bar> = (1 - lerpSpeed) * \<bar>c - p\<bar>" unfolding q_def using bb by blast
    have between: "(p \<le> c \<longrightarrow> p \<le> p' \<and> p' \<le> c) \<and> (c \<le> p \<longrightarrow> c \<le> p' \<and> p' \<le> p)"
    proof (intro conjI impI)
      assume h: "p \<le> c"
      then have "p \<le> q" "q \<le> c" unfolding q_def using bb by blast+
      then have "store p \<le> store q" "store q \<le> store c" using mono by blast+
      then show "p \<le> p'" "p' \<le> c" unfolding step sp sc by simp_all
    next
      assume h: "c \<le> p"
      then have "c \<le> q" "q \<le> p" unfolding q_def using bb by blast+
      then have "store c \<le> store q" "store q \<le> store p" using mono by blast+
      then show "c \<le> p'" "p' \<le> p" unfolding step sp sc by simp_all
    qed
    have weak: "\<bar>c - p'\<bar> \<le> \<bar>c - p\<bar>" using between by (cases "p \<le> c") auto
    have strict: "p' \<noteq> p \<longrightarrow> \<bar>c - p'\<bar> < \<bar>c - p\<bar>" using between by (cases "p \<le> c") auto
    have "p' = store (p + (c - p) * lerpSpeed) \<and>
          \<bar>c - (p + (c - p) * lerpSpeed)\<bar> = (1 - lerpSpeed) * \<bar>c - p\<bar> \<and>
          \<bar>c - p'\<bar> \<le> \<bar>c - p\<bar> \<and> (p' \<noteq> p \<longrightarrow> \<bar>c - p'\<bar> < \<bar>c - p\<bar>)"
      using step shrink weak strict unfolding q_def by blast
    then show ?thesis unfolding p'_def p_def c_def .
  qed
  have "positions ?s0 = positions st" "targets ?s0 = cloud" by (simp_all add: changeShape_def)
  then show ?thesis using main by blast
qed

theorem morph_convergence_witness:
  "positions (changeShape [5, 5, 5] (initEngine 1 [0, 0, 0] [1, 1, 1])) = [0, 0, 0] \<and>
   positions (ticksStored fround 1 [halfRnd] (changeShape [5, 5, 5] (initEngine 1 [0, 0, 0] [1, 1, 1]))) ! 0
     = fround (0 + (5 - 0) * lerpSpeed) \<and>
   \<bar>5 - positions (ticksStored fround 1 [halfRnd] (changeShape [5, 5, 5] (initEngine 1 [0, 0, 0] [1, 1, 1]))) ! 0\<bar>
     \<le> 5"
proof -
  let ?s = "initEngine 1 [0, 0, 0] [1, 1, 1]"
  have h: "\<not> explosionActive ?s" "effectiveTension (hand ?s) = 0" "\<not> grabbing (hand ?s)"
    "length (positions ?s) = 1 * 3" "length (explosionVelocities ?s) = 1 * 3"
    "length [5, 5, 5 :: real] = 1 * 3" "(0::nat) < 1 * 3"
    by (simp_all add: initEngine_def initHand_def effectiveTension_def)
  have f: "fround (positions ?s ! 0) = positions ?s ! 0" "fround ([5, 5, 5] ! 0) = [5, 5, 5] ! 0"
    by (simp_all add: initEngine_def fround_zero fround_5)
  have p: "positions (ticksStored fround 1 [] (changeShape [5, 5, 5] ?s)) ! 0 = 0"
    by (simp add: ticksStored_Nil changeShape_def initEngine_def)
  from morph_convergence [OF h fround_mono_all fround_idem_all f] have
    "positions (changeShape [5, 5, 5] ?s) = positions ?s"
    "positions (ticksStored fround 1 ([] @ [halfRnd]) (changeShape [5, 5, 5] ?s)) ! 0 =
       fround (positions (ticksStored fround 1 [] (changeShape [5, 5, 5] ?s)) ! 0 +
         ([5, 5, 5] ! 0 - positions (ticksStored fround 1 [] (changeShape [5, 5, 5] ?s)) ! 0) * lerpSpeed)"
    "\<bar>[5, 5, 5] ! 0 - positions (ticksStored fround 1 ([] @ [halfRnd]) (changeShape [5, 5, 5] ?s)) ! 0\<bar>
       \<le> \<bar>[5, 5, 5] ! 0 - positions (ticksStored fround 1 [] (changeShape [5, 5, 5] ?s)) ! 0\<bar>"
    by blast+
  then show ?thesis unfolding p by (simp add: initEngine_def)
qed

text \<open>
  One particle with coordinates \<open>5 - 2 ^ -21\<close>, the single-precision number just below 5,
  and targets at 5: the tick computes \<open>5 - 0.965 * 2 ^ -21\<close>, which is stored as
  \<open>5 - 2 ^ -21\<close> again, so the coordinate differs from its target and does not move.
\<close>

theorem stalled_coordinate_counterexample:
  "positions (changeShape [5, 5, 5] stallState) ! 0 = 5 - 1 / 2097152 \<and>
   targets (changeShape [5, 5, 5] stallState) ! 0 = 5 \<and>
   positions (animateStored fround 1 halfRnd (changeShape [5, 5, 5] stallState)) ! 0 = 5 - 1 / 2097152"
proof -
  let ?s = "changeShape [5, 5, 5] stallState"
  have l: "length (positions ?s) = 1 * 3" "length (explosionVelocities ?s) = 1 * 3"
    by (simp_all add: changeShape_def stallState_def initEngine_def)
  have q: "\<not> explosionActive ?s" "effectiveTension (hand ?s) = 0" "\<not> grabbing (hand ?s)"
    by (simp_all add: changeShape_def stallState_def initEngine_def initHand_def effectiveTension_def)
  have v: "positions ?s ! 0 = 5 - 1 / 2097152" "targets ?s ! 0 = 5"
    by (simp_all add: changeShape_def stallState_def initEngine_def)
  have "positions (animateStored fround 1 halfRnd ?s) ! 0 =
          fround ((5 - 1 / 2097152) + (5 - (5 - 1 / 2097152)) * 0.035)"
    using quiet_tick_stored[OF l q, of 0 fround halfRnd] unfolding v by (simp add: lerpSpeed_def)
  then show ?thesis unfolding fround_stall using v by simp
qed

end
